theory Spec2Isabelle
  imports Main "HOL-Library.AList"
begin

section \<open>Empty-query cache (package cache)\<close>

text \<open>
  Go maps are association lists read with \<open>map_of\<close> and written with
  \<open>AList.update\<close> and \<open>AList.delete\<close>; a \<open>range\<close> over a map visits every
  entry of the list. A pointer \<open>*response.QueryAns\<close> is an \<open>option\<close> (\<open>None\<close> is nil,
  which is also what \<open>Get\<close> returns for a miss). \<open>Set\<close> and \<open>Del\<close> hold the cache mutex
  from their first to their last statement, so each is one atomic state transformer.
\<close>

text \<open>\<open>strings.Join(elems, sep)\<close>.\<close>

fun Join :: "string list \<Rightarrow> string \<Rightarrow> string" where
  "Join [] sep = []"
| "Join [x] sep = x"
| "Join (x # y # zs) sep = x @ sep @ Join (y # zs) sep"

definition mkKey :: "string \<Rightarrow> string list \<Rightarrow> string" where
  "mkKey corpusID aligned = Join (aligned @ [corpusID]) '':''"

text \<open>
  \<open>query.Payload\<close>: the two fields the cache reads. \<open>Attrs\<close> is a Go map from attribute
  names to values of any type.
\<close>

record 'a Payload =
  Attrs :: "(string \<times> 'a) list"
  Aligned :: "string list"

record 'v EmptyQueryCache =
  data :: "(string \<times> 'v option) list"
  corpKeyDeps :: "(string \<times> string list) list"

definition NewEmptyQueryCache :: "'v EmptyQueryCache" where
  "NewEmptyQueryCache = \<lparr>data = [], corpKeyDeps = []\<rparr>"

definition Get :: "'v EmptyQueryCache \<Rightarrow> string \<Rightarrow> 'a Payload \<Rightarrow> 'v option" where
  "Get qc corpusID qry =
     (if length (Attrs qry) > 0 then None
      else (case map_of (data qc) (mkKey corpusID (Aligned qry)) of
              None \<Rightarrow> None
            | Some p \<Rightarrow> p))"

definition setKeyCorpusDependency ::
    "string \<Rightarrow> string \<Rightarrow> 'v EmptyQueryCache \<Rightarrow> 'v EmptyQueryCache" where
  "setKeyCorpusDependency corpusID key qc =
     (case map_of (corpKeyDeps qc) corpusID of
        None \<Rightarrow> qc\<lparr>corpKeyDeps := AList.update corpusID [key] (corpKeyDeps qc)\<rparr>
      | Some keys \<Rightarrow>
          if key \<in> set keys then qc
          else qc\<lparr>corpKeyDeps := AList.update corpusID (keys @ [key]) (corpKeyDeps qc)\<rparr>)"

definition Set ::
    "string \<Rightarrow> 'a Payload \<Rightarrow> 'v option \<Rightarrow> 'v EmptyQueryCache \<Rightarrow> 'v EmptyQueryCache" where
  "Set corpusID qry val qc =
     (if length (Attrs qry) > 0 then qc
      else
        let cKey = mkKey corpusID (Aligned qry);
            qc1 = qc\<lparr>data := AList.update cKey val (data qc)\<rparr>;
            qc2 = setKeyCorpusDependency corpusID cKey qc1
        in fold (\<lambda>alignedCorpusID. setKeyCorpusDependency alignedCorpusID cKey)
             (Aligned qry) qc2)"

text \<open>
  \<open>pruneKeyInDeps\<close> rebuilds every bucket without \<open>key\<close> and returns the number of
  removed occurrences.
\<close>

definition pruneKeyInDeps :: "string \<Rightarrow> 'v EmptyQueryCache \<Rightarrow> 'v EmptyQueryCache \<times> nat" where
  "pruneKeyInDeps key qc =
     (qc\<lparr>corpKeyDeps :=
          map (\<lambda>(corpID, keys). (corpID, filter (\<lambda>k. k \<noteq> key) keys)) (corpKeyDeps qc)\<rparr>,
      sum_list (map (\<lambda>(corpID, keys). length (filter (\<lambda>k. k = key) keys)) (corpKeyDeps qc)))"

text \<open>
  The loop of \<open>Del\<close> over \<open>cInv\<close>, the bucket read before the loop (\<open>pruneKeyInDeps\<close>
  stores freshly allocated slices, so the slice being ranged over is not changed).
\<close>

fun Del_loop ::
    "string list \<Rightarrow> 'v EmptyQueryCache \<times> nat \<Rightarrow> 'v EmptyQueryCache \<times> nat" where
  "Del_loop [] acc = acc"
| "Del_loop (key # rest) (qc, totalPruned) =
     (let qc1 = qc\<lparr>data := AList.delete key (data qc)\<rparr>;
          (qc2, n) = pruneKeyInDeps key qc1
      in Del_loop rest (qc2, totalPruned + n))"

definition Del :: "string \<Rightarrow> 'v EmptyQueryCache \<Rightarrow> 'v EmptyQueryCache" where
  "Del corpusID qc =
     (let cInv = (case map_of (corpKeyDeps qc) corpusID of None \<Rightarrow> [] | Some keys \<Rightarrow> keys);
          (qc1, totalPruned) = Del_loop cInv (qc, 0)
      in qc1\<lparr>corpKeyDeps := AList.delete corpusID (corpKeyDeps qc1)\<rparr>)"

text \<open>
  The corpus IDs appearing in a key are its colon-separated fields
  (\<open>strings.Split(key, ":")\<close>, which yields one empty field for the empty string).
\<close>

fun Split :: "string \<Rightarrow> char \<Rightarrow> string list" where
  "Split [] sep = [[]]"
| "Split (c # cs) sep =
     (if c = sep then [] # Split cs sep
      else (case Split cs sep of [] \<Rightarrow> [[c]] | w # ws \<Rightarrow> (c # w) # ws))"

definition key_corpora :: "string \<Rightarrow> string list" where
  "key_corpora key = Split key CHR '':''"

definition bucket :: "'v EmptyQueryCache \<Rightarrow> string \<Rightarrow> string list" where
  "bucket qc corpusID = (case map_of (corpKeyDeps qc) corpusID of None \<Rightarrow> [] | Some keys \<Rightarrow> keys)"

text \<open>The reverse-index invariant of the cache.\<close>

definition reverse_index_inv :: "'v EmptyQueryCache \<Rightarrow> bool" where
  "reverse_index_inv qc \<longleftrightarrow>
     (\<forall>key \<in> set (map fst (data qc)). \<forall>c \<in> set (key_corpora key). key \<in> set (bucket qc c))"

text \<open>The cache states a program can build: the fields are unexported.\<close>

inductive cache_reachable :: "'v EmptyQueryCache \<Rightarrow> bool" where
  reach_New: "cache_reachable NewEmptyQueryCache"
| reach_Set: "cache_reachable qc \<Longrightarrow> cache_reachable (Set corpusID (qry :: unit Payload) val qc)"
| reach_Del: "cache_reachable qc \<Longrightarrow> cache_reachable (Del corpusID qc)"


section \<open>Job scheduler (package jobs)\<close>

text \<open>
  Modelled from the spec: the descriptor interface \<open>GeneralJobInfo\<close> and its
  implementations are not part of the sources at hand. The descriptor carries identity, type
  tag, corpus affiliation, start timestamp, nullable error, finished flag and restart
  counter; \<open>WithError\<close> produces a copy with an error attached and \<open>AsFinished\<close> a copy
  marked finished. A Go \<open>error\<close> is \<open>None\<close> (nil) or \<open>Some\<close> message.
\<close>

record JobInfo =
  GetID :: string
  GetType :: string
  GetCorpus :: string
  GetStartDT :: nat
  GetError :: "string option"
  IsFinished :: bool
  GetNumRestarts :: nat

definition WithError :: "string option \<Rightarrow> JobInfo \<Rightarrow> JobInfo" where
  "WithError err j = j\<lparr>GetError := err\<rparr>"

definition AsFinished :: "JobInfo \<Rightarrow> JobInfo" where
  "AsFinished j = j\<lparr>IsFinished := True\<rparr>"

text \<open>
  Modelled from the spec: \<open>JobQueue\<close> is not part of the sources at hand. It is a FIFO of
  (worker function, initial descriptor) pairs: \<open>Enqueue\<close> appends to the tail, \<open>Dequeue\<close>
  removes the head or fails on the empty queue, \<open>PeekID\<close> returns the head's ID or fails on
  the empty queue, \<open>DelayNext\<close> moves the head to the tail, \<open>Size\<close> is the length.
  A failure is \<open>None\<close>.
\<close>

type_synonym 'f JobQueue = "('f \<times> JobInfo) list"

definition Enqueue :: "'f \<Rightarrow> JobInfo \<Rightarrow> 'f JobQueue \<Rightarrow> 'f JobQueue" where
  "Enqueue fn initialStatus q = q @ [(fn, initialStatus)]"

definition Dequeue :: "'f JobQueue \<Rightarrow> (('f \<times> JobInfo) \<times> 'f JobQueue) option" where
  "Dequeue q = (case q of [] \<Rightarrow> None | x # rest \<Rightarrow> Some (x, rest))"

definition PeekID :: "'f JobQueue \<Rightarrow> string option" where
  "PeekID q = (case q of [] \<Rightarrow> None | (fn, j) # rest \<Rightarrow> Some (GetID j))"

definition DelayNext :: "'f JobQueue \<Rightarrow> 'f JobQueue" where
  "DelayNext q = (case q of [] \<Rightarrow> [] | x # rest \<Rightarrow> rest @ [x])"

definition Size :: "'f JobQueue \<Rightarrow> nat" where
  "Size q = length q"

text \<open>
  Modelled from the spec: \<open>JobsDeps\<close> is not part of the sources at hand (the scheduler
  indexes it as a Go map keyed by the child's job ID). It maps a child to its parents, each
  with a state. \<open>Add\<close> records an edge; \<open>MustWait\<close> is true iff some parent is still
  unfinished; \<open>HasFailedParent\<close> is true iff some parent finished with a failure; both fail
  (\<open>Inl\<close>) for a child without recorded parents; \<open>SetParentFinished\<close> marks the parent's
  state in every child's list.
\<close>

datatype parent_state = ParentUnfinished | ParentFinishedOK | ParentFinishedFailed

type_synonym JobsDeps = "(string \<times> (string \<times> parent_state) list) list"

definition Add :: "string \<Rightarrow> string \<Rightarrow> JobsDeps \<Rightarrow> JobsDeps" where
  "Add jobID parentID deps =
     AList.update jobID
       ((case map_of deps jobID of None \<Rightarrow> [] | Some ps \<Rightarrow> ps) @ [(parentID, ParentUnfinished)])
       deps"

definition MustWait :: "JobsDeps \<Rightarrow> string \<Rightarrow> string + bool" where
  "MustWait deps jobID =
     (case map_of deps jobID of
        None \<Rightarrow> Inl (''unknown parent of job '' @ jobID)
      | Some ps \<Rightarrow> Inr (\<exists>p \<in> set ps. snd p = ParentUnfinished))"

definition HasFailedParent :: "JobsDeps \<Rightarrow> string \<Rightarrow> string + bool" where
  "HasFailedParent deps jobID =
     (case map_of deps jobID of
        None \<Rightarrow> Inl (''unknown parent of job '' @ jobID)
      | Some ps \<Rightarrow> Inr (\<exists>p \<in> set ps. snd p = ParentFinishedFailed))"

definition SetParentFinished :: "string \<Rightarrow> bool \<Rightarrow> JobsDeps \<Rightarrow> JobsDeps" where
  "SetParentFinished parentID failed deps =
     map (\<lambda>(child, ps).
            (child,
             map (\<lambda>(p, st).
                    if p = parentID
                    then (p, if failed then ParentFinishedFailed else ParentFinishedOK)
                    else (p, st)) ps)) deps"

text \<open>The configuration fields the scheduler reads (\<open>Conf\<close>; Go \<open>int\<close> as \<open>int\<close>).\<close>

record Conf =
  MaxNumConcurrentJobs :: int
  MaxNumRestarts :: int
  StatusDataPath :: string

definition tableActionUpdateJob :: int where "tableActionUpdateJob = 0"
definition tableActionFinishJob :: int where "tableActionFinishJob = 1"
definition tableActionClearOldJobs :: int where "tableActionClearOldJobs = 2"

text \<open>
  \<open>TableUpdate\<close>; its field \<open>data\<close> is \<open>data_upd\<close> here (\<open>None\<close> is the nil interface).
\<close>

record TableUpdate =
  action :: int
  itemID :: string
  data_upd :: "JobInfo option"

text \<open>
  A channel made by \<open>registerJob\<close> together with the goroutine that drains it: the job ID
  the goroutine captured, the descriptors sent on the channel so far, in order, and whether
  the channel has been closed. Workers are assumed to send descriptors, never the nil
  interface.
\<close>

record syncChan =
  chan_job :: string
  chan_items :: "JobInfo list"
  chan_closed :: bool

text \<open>
  What the goroutine of \<open>registerJob\<close> writes to \<open>tableUpdate\<close> for such a channel: one
  \<open>UpdateJob\<close> per item received and, only once the channel is closed and the \<open>range\<close>
  loop ends, one \<open>FinishJob\<close> with the last item received (nil if there was none).
\<close>

definition pump :: "syncChan \<Rightarrow> TableUpdate list" where
  "pump ch =
     map (\<lambda>item. \<lparr>action = tableActionUpdateJob, itemID = chan_job ch, data_upd = Some item\<rparr>)
       (chan_items ch)
     @ (if chan_closed ch
        then [\<lparr>action = tableActionFinishJob, itemID = chan_job ch,
               data_upd = (if chan_items ch = [] then None else Some (last (chan_items ch)))\<rparr>]
        else [])"

text \<open>
  \<open>Actions\<close>. The job-list and detached-jobs mutexes are taken and released around single
  map operations and are not modelled; \<open>jobQueueLock\<close> is (\<open>True\<close>: held). \<open>syncUpdates\<close>
  lists the channels made so far, \<open>started\<close> the worker goroutines started (function and
  index of its channel), \<open>mailed\<close> the notifications handed to the mailer.
\<close>

record 'f Actions =
  conf :: Conf
  jobList :: "(string \<times> JobInfo) list"
  detachedJobs :: "(string \<times> JobInfo) list"
  jobQueue :: "'f JobQueue"
  jobQueueLock :: bool
  jobDeps :: JobsDeps
  notificationRecipients :: "(string \<times> string list) list"
  syncUpdates :: "syncChan list"
  started :: "('f \<times> nat) list"
  mailed :: "(string \<times> string list) list"

text \<open>
  How a goroutine can fail to continue: a method call on a nil interface panics, and
  \<open>Lock\<close> on a mutex nobody will release blocks forever.
\<close>

datatype fault = NilDereference | BlocksForever

definition createJobList :: "bool \<Rightarrow> 'f Actions \<Rightarrow> JobInfo list" where
  "createJobList unfinishedOnly a =
     map snd (filter (\<lambda>(k, v). \<not> unfinishedOnly \<or> \<not> IsFinished v) (jobList a))"

definition numOfUnfinishedJobs :: "'f Actions \<Rightarrow> nat" where
  "numOfUnfinishedJobs a = length (filter (\<lambda>(k, v). \<not> IsFinished v) (jobList a))"

definition EnqueueJob :: "'f \<Rightarrow> JobInfo \<Rightarrow> 'f Actions \<Rightarrow> fault + 'f Actions" where
  "EnqueueJob fn initialStatus a =
     (if jobQueueLock a then Inl BlocksForever
      else Inr (a\<lparr>jobQueue := Enqueue fn initialStatus (jobQueue a)\<rparr>))"

definition EqueueJobAfter ::
    "'f \<Rightarrow> JobInfo \<Rightarrow> string \<Rightarrow> 'f Actions \<Rightarrow> fault + 'f Actions" where
  "EqueueJobAfter fn initialStatus parentJobID a =
     (if jobQueueLock a then Inl BlocksForever
      else Inr (a\<lparr>jobQueue := Enqueue fn initialStatus (jobQueue a),
                 jobDeps := Add (GetID initialStatus) parentJobID (jobDeps a)\<rparr>))"

text \<open>\<open>registerJob\<close> returns the new state and the index of the channel it made.\<close>

definition registerJob :: "JobInfo \<Rightarrow> 'f Actions \<Rightarrow> 'f Actions \<times> nat" where
  "registerJob j a =
     (let a1 = (if map_of (detachedJobs a) (GetID j) \<noteq> None
                then a\<lparr>detachedJobs := AList.delete (GetID j) (detachedJobs a)\<rparr>
                else a);
          a2 = a1\<lparr>jobList := AList.update (GetID j) j (jobList a1)\<rparr>
      in (a2\<lparr>syncUpdates := syncUpdates a2 @
                [\<lparr>chan_job = GetID j, chan_items = [], chan_closed = False\<rparr>]\<rparr>,
          length (syncUpdates a2)))"

text \<open>
  \<open>ch <- item\<close> on the channel with index \<open>ch\<close>; the channels have capacity 100 and the
  only send of the scheduler itself is the first one on a channel just made, which does not
  block.
\<close>

definition send :: "nat \<Rightarrow> JobInfo \<Rightarrow> 'f Actions \<Rightarrow> 'f Actions" where
  "send ch item a =
     a\<lparr>syncUpdates :=
         (syncUpdates a)[ch := (syncUpdates a ! ch)
            \<lparr>chan_items := chan_items (syncUpdates a ! ch) @ [item]\<rparr>]\<rparr>"

definition dequeueAndRunJob :: "'f Actions \<Rightarrow> 'f Actions" where
  "dequeueAndRunJob a =
     (case Dequeue (jobQueue a) of
        None \<Rightarrow> a
      | Some ((fn, initState), rest) \<Rightarrow>
          let (a1, updateJobChan) = registerJob initState (a\<lparr>jobQueue := rest\<rparr>)
          in a1\<lparr>started := started a1 @ [(fn, updateJobChan)]\<rparr>)"

text \<open>
  \<open>dequeueJobAsFailed\<close> ignores the error of \<open>Dequeue\<close>; on the empty queue the
  descriptor is nil and \<open>WithError\<close> panics.
\<close>

definition dequeueJobAsFailed :: "string option \<Rightarrow> 'f Actions \<Rightarrow> fault + 'f Actions" where
  "dequeueJobAsFailed err a =
     (case Dequeue (jobQueue a) of
        None \<Rightarrow> Inl NilDereference
      | Some ((fn, initState), rest) \<Rightarrow>
          let finalState = WithError err initState;
              (a1, updateJobChan) = registerJob finalState (a\<lparr>jobQueue := rest\<rparr>)
          in Inr (send updateJobChan (AsFinished finalState) a1))"

text \<open>
  The body of the admit ticker once the queue lock is held and \<open>numUnfinished\<close> has been
  read. The source has an \<open>if\<close>, not a loop, and releases the lock inside that \<open>if\<close> only.
  The error of the last branch wraps the nil error of \<open>HasFailedParent\<close>, which
  \<open>fmt.Errorf\<close> prints as \<open>%!w(<nil>)\<close>.
\<close>

definition admit :: "nat \<Rightarrow> 'f Actions \<Rightarrow> fault + 'f Actions" where
  "admit numUnfinished a =
     (if MaxNumConcurrentJobs (conf a) > int numUnfinished then
        (case
           (case PeekID (jobQueue a) of
              None \<Rightarrow> Inr a
            | Some nextJobID \<Rightarrow>
                if map_of (jobDeps a) nextJobID \<noteq> None then
                  (case MustWait (jobDeps a) nextJobID of
                     Inl err \<Rightarrow>
                       dequeueJobAsFailed
                         (Some (''failed to obtain waiting status for job '' @ nextJobID
                                  @ '': '' @ err)) a
                   | Inr mustWait \<Rightarrow>
                       if mustWait then Inr (a\<lparr>jobQueue := DelayNext (jobQueue a)\<rparr>)
                       else
                         (case HasFailedParent (jobDeps a) nextJobID of
                            Inl err \<Rightarrow>
                              dequeueJobAsFailed
                                (Some (''failed to check parents of job '' @ nextJobID
                                         @ '': '' @ err)) a
                          | Inr hasFailedParent \<Rightarrow>
                              if hasFailedParent then
                                dequeueJobAsFailed
                                  (Some (''failed to run job '' @ nextJobID
                                           @ '' due to failed parent(s): %!w(<nil>)'')) a
                              else Inr (dequeueAndRunJob a)))
                else Inr (dequeueAndRunJob a))
         of
           Inl f \<Rightarrow> Inl f
         | Inr a' \<Rightarrow> Inr (a'\<lparr>jobQueueLock := False\<rparr>))
      else Inr a)"

text \<open>One firing of the one-second ticker: \<open>Lock\<close>, read the count, admit.\<close>

definition tick :: "'f Actions \<Rightarrow> fault + 'f Actions" where
  "tick a =
     (if jobQueueLock a then Inl BlocksForever
      else admit (numOfUnfinishedJobs (a\<lparr>jobQueueLock := True\<rparr>)) (a\<lparr>jobQueueLock := True\<rparr>))"

text \<open>
  One iteration of the goroutine that consumes \<open>tableUpdate\<close>. \<open>clearOldJobs\<close> is not part
  of the sources at hand and is a parameter. The mail is recorded by its job ID and
  recipients. A method call on a missing table entry or on nil event data is a call on the
  nil interface. An \<open>UpdateJob\<close> event with nil data, which no goroutine of \<open>registerJob\<close>
  sends, is a fault at once here; the source would store the nil when the entry has no
  error and fault at the next read of the table.
\<close>

definition tableUpdate_step ::
    "((string \<times> JobInfo) list \<Rightarrow> (string \<times> JobInfo) list) \<Rightarrow> TableUpdate \<Rightarrow> 'f Actions
       \<Rightarrow> fault + 'f Actions" where
  "tableUpdate_step clearOldJobs upd a =
     (if action upd = tableActionUpdateJob then
        (case map_of (jobList a) (itemID upd) of
           None \<Rightarrow> Inl NilDereference
         | Some cur \<Rightarrow>
             (case data_upd upd of
                None \<Rightarrow> Inl NilDereference
              | Some d \<Rightarrow>
                  let currErr = GetError cur in
                  if currErr \<noteq> None \<and> GetError d = None
                  then Inr (a\<lparr>jobList := AList.update (itemID upd) (WithError currErr d) (jobList a)\<rparr>)
                  else Inr (a\<lparr>jobList := AList.update (itemID upd) d (jobList a)\<rparr>)))
      else if action upd = tableActionFinishJob then
        (case map_of (jobList a) (itemID upd) of
           None \<Rightarrow> Inl NilDereference
         | Some cur \<Rightarrow>
             let a1 = a\<lparr>jobList := AList.update (itemID upd) (AsFinished cur) (jobList a)\<rparr> in
             (case data_upd upd of
                None \<Rightarrow> Inl NilDereference
              | Some d \<Rightarrow>
                  let a2 = a1\<lparr>jobDeps :=
                              SetParentFinished (itemID upd) (GetError d \<noteq> None) (jobDeps a1)\<rparr>
                  in (case map_of (notificationRecipients a2) (itemID upd) of
                        None \<Rightarrow> Inr a2
                      | Some recipients \<Rightarrow>
                          Inr (a2\<lparr>mailed := mailed a2 @ [(itemID upd, recipients)]\<rparr>))))
      else if action upd = tableActionClearOldJobs then
        Inr (a\<lparr>jobList := clearOldJobs (jobList a)\<rparr>)
      else Inr a)"

text \<open>
  What the goroutine of \<open>goWaitExit\<close> does once the context is cancelled: hand the list of
  unfinished descriptors to \<open>Serialize\<close> with the configured path, or discard it.
\<close>

datatype exit_action = SaveState string "JobInfo list" | DiscardJobList

definition goWaitExit :: "'f Actions \<Rightarrow> exit_action" where
  "goWaitExit a =
     (if StatusDataPath (conf a) \<noteq> []
      then SaveState (StatusDataPath (conf a)) (createJobList True a)
      else DiscardJobList)"

text \<open>
  The state \<open>NewActions\<close> returns; \<open>loaded\<close> is what \<open>LoadJobList\<close> read from the status
  file (empty when there is none), nil entries skipped.
\<close>

definition NewActions :: "Conf \<Rightarrow> JobInfo option list \<Rightarrow> 'f Actions" where
  "NewActions c loaded =
     \<lparr>conf = c,
      jobList = [],
      detachedJobs =
        fold (\<lambda>job dj. case job of None \<Rightarrow> dj | Some j \<Rightarrow> AList.update (GetID j) j dj) loaded [],
      jobQueue = [],
      jobQueueLock = False,
      jobDeps = [],
      notificationRecipients = [],
      syncUpdates = [],
      started = [],
      mailed = []\<rparr>"

text \<open>
  The scheduler steps: a job is enqueued, the admit ticker fires, or the consumer applies a
  \<open>FinishJob\<close> event. \<open>sched_reach a0 a\<close>: these steps lead from \<open>a0\<close> to \<open>a\<close>.
  The ticker reads the count and admits later, still holding the queue lock, so
  \<open>FinishJob\<close> events may be applied in between: \<open>sched_tick_stale\<close> is a tick whose
  count \<open>n\<close> was read before such events lowered it.
\<close>

inductive sched_reach :: "'f Actions \<Rightarrow> 'f Actions \<Rightarrow> bool" for a0 :: "'f Actions" where
  sched_start: "sched_reach a0 a0"
| sched_enqueue:
    "sched_reach a0 a \<Longrightarrow> EnqueueJob fn j a = Inr a' \<Longrightarrow> sched_reach a0 a'"
| sched_enqueue_after:
    "sched_reach a0 a \<Longrightarrow> EqueueJobAfter fn j parentJobID a = Inr a' \<Longrightarrow> sched_reach a0 a'"
| sched_tick:
    "sched_reach a0 a \<Longrightarrow> tick a = Inr a' \<Longrightarrow> sched_reach a0 a'"
| sched_tick_stale:
    "sched_reach a0 a \<Longrightarrow> \<not> jobQueueLock a \<Longrightarrow> numOfUnfinishedJobs a \<le> n \<Longrightarrow>
     admit n (a\<lparr>jobQueueLock := True\<rparr>) = Inr a' \<Longrightarrow> sched_reach a0 a'"
| sched_finish:
    "sched_reach a0 a \<Longrightarrow>
     tableUpdate_step clearOldJobs
       \<lparr>action = tableActionFinishJob, itemID = jobID, data_upd = d\<rparr> a = Inr a' \<Longrightarrow>
     sched_reach a0 a'"

subsection \<open>Concrete inputs\<close>

text \<open>Two descriptors and a configuration with a ceiling of two concurrent jobs.\<close>

definition job_a :: JobInfo where
  "job_a = \<lparr>GetID = ''a'', GetType = ''ngram-generating'', GetCorpus = ''syn2020'',
            GetStartDT = 10, GetError = None, IsFinished = False, GetNumRestarts = 0\<rparr>"

definition job_b :: JobInfo where
  "job_b = \<lparr>GetID = ''b'', GetType = ''liveattrs'', GetCorpus = ''syn2020'',
            GetStartDT = 20, GetError = None, IsFinished = False, GetNumRestarts = 0\<rparr>"

definition conf2 :: Conf where
  "conf2 = \<lparr>MaxNumConcurrentJobs = 2, MaxNumRestarts = 3,
             StatusDataPath = ''/var/frodo/status.json''\<rparr>"

section \<open>Properties of the empty-query cache\<close>

subsection \<open>Keys and their corpus IDs\<close>

lemma Split_nonempty: "Split s sep \<noteq> []"
  by (induction s) (auto split: list.splits)

lemma Split_no_sep: "sep \<notin> set x \<Longrightarrow> Split (x @ sep # rest) sep = x # Split rest sep"
  by (induction x) (auto split: list.splits)

lemma Split_plain: "sep \<notin> set x \<Longrightarrow> Split x sep = [x]"
  by (induction x) (auto split: list.splits)

lemma Split_Join:
  "xs \<noteq> [] \<Longrightarrow> \<forall>x \<in> set xs. sep \<notin> set x \<Longrightarrow> Split (Join xs [sep]) sep = xs"
proof (induction xs "[sep]" rule: Join.induct)
  case 1
  then show ?case by simp
next
  case (2 x)
  then show ?case by (simp add: Split_plain)
next
  case (3 x y zs)
  then show ?case by (simp add: Split_no_sep)
qed

lemma key_corpora_mkKey:
  "\<forall>c \<in> set (corpusID # aligned). CHR '':'' \<notin> set c \<Longrightarrow>
   key_corpora (mkKey corpusID aligned) = aligned @ [corpusID]"
  unfolding key_corpora_def mkKey_def by (rule Split_Join) auto

lemma data_setKey [simp]: "data (setKeyCorpusDependency c k qc) = data qc"
  by (simp add: setKeyCorpusDependency_def split: option.splits)

lemma bucket_setKey:
  "set (bucket (setKeyCorpusDependency c k qc) c') =
     set (bucket qc c') \<union> (if c' = c then {k} else {})"
  by (auto simp: bucket_def setKeyCorpusDependency_def update_conv' split: option.splits)

lemma data_fold_setKey [simp]:
  "data (fold (\<lambda>a. setKeyCorpusDependency a k) as qc) = data qc"
  by (induction as arbitrary: qc) auto

lemma bucket_fold_setKey:
  "set (bucket (fold (\<lambda>a. setKeyCorpusDependency a k) as qc) c') =
     set (bucket qc c') \<union> (if c' \<in> set as then {k} else {})"
  by (induction as arbitrary: qc) (auto simp: bucket_setKey)

lemma bucket_data_update [simp]: "bucket (qc\<lparr>data := d\<rparr>) c = bucket qc c"
  by (simp add: bucket_def)

lemma data_Set:
  "Attrs qry = [] \<Longrightarrow>
   data (Set corpusID qry val qc) = AList.update (mkKey corpusID (Aligned qry)) val (data qc)"
  by (simp add: Set_def Let_def)

lemma bucket_Set:
  "Attrs qry = [] \<Longrightarrow>
   set (bucket (Set corpusID qry val qc) c') =
     set (bucket qc c') \<union>
       (if c' \<in> set (corpusID # Aligned qry) then {mkKey corpusID (Aligned qry)} else {})"
  by (auto simp: Set_def Let_def bucket_fold_setKey bucket_setKey)

lemma Set_nonempty_attrs: "Attrs qry \<noteq> [] \<Longrightarrow> Set corpusID qry val qc = qc"
  by (simp add: Set_def)

lemma inv_Set:
  assumes "reverse_index_inv qc" and "\<forall>c \<in> set (corpusID # Aligned qry). CHR '':'' \<notin> set c"
  shows "reverse_index_inv (Set corpusID qry val qc)"
proof (cases "Attrs qry = []")
  case False
  then show ?thesis using assms by (simp add: Set_nonempty_attrs)
next
  case True
  show ?thesis
    unfolding reverse_index_inv_def
  proof (intro ballI)
    fix key c
    assume k: "key \<in> set (map fst (data (Set corpusID qry val qc)))"
      and c: "c \<in> set (key_corpora key)"
    from k have "key = mkKey corpusID (Aligned qry) \<or> key \<in> set (map fst (data qc))"
      using dom_update[of "mkKey corpusID (Aligned qry)" val "data qc"]
      by (auto simp: data_Set[OF True])
    then show "key \<in> set (bucket (Set corpusID qry val qc) c)"
    proof
      assume e: "key = mkKey corpusID (Aligned qry)"
      with c key_corpora_mkKey[OF assms(2)] have "c \<in> set (corpusID # Aligned qry)" by auto
      then show ?thesis using e by (simp add: bucket_Set[OF True])
    next
      assume "key \<in> set (map fst (data qc))"
      with assms(1) c have "key \<in> set (bucket qc c)" by (auto simp: reverse_index_inv_def)
      then show ?thesis by (simp add: bucket_Set[OF True])
    qed
  qed
qed

subsection \<open>Deletion\<close>

lemma data_prune [simp]: "data (fst (pruneKeyInDeps k qc)) = data qc"
  by (simp add: pruneKeyInDeps_def)

lemma deps_prune:
  "corpKeyDeps (fst (pruneKeyInDeps k qc)) =
     map (\<lambda>(c, keys). (c, filter (\<lambda>x. x \<noteq> k) keys)) (corpKeyDeps qc)"
  by (simp add: pruneKeyInDeps_def)

lemma Del_loop_Cons:
  "Del_loop (k # ks) (qc, n) =
     Del_loop ks (fst (pruneKeyInDeps k (qc\<lparr>data := AList.delete k (data qc)\<rparr>)),
                  n + snd (pruneKeyInDeps k (qc\<lparr>data := AList.delete k (data qc)\<rparr>)))"
  by (simp add: Let_def split_beta)

lemma deps_Del_loop:
  "corpKeyDeps (fst (Del_loop ks (qc, n))) =
     map (\<lambda>(c, keys). (c, filter (\<lambda>x. x \<notin> set ks) keys)) (corpKeyDeps qc)"
proof (induction ks arbitrary: qc n)
  case Nil
  then show ?case by simp
next
  case (Cons k ks)
  show ?case
    unfolding Del_loop_Cons Cons.IH
    by (simp add: deps_prune split_beta o_def conj_commute)
qed

lemma data_Del_loop:
  "map_of (data (fst (Del_loop ks (qc, n)))) key =
     (if key \<in> set ks then None else map_of (data qc) key)"
proof (induction ks arbitrary: qc n)
  case Nil
  then show ?case by simp
next
  case (Cons k ks)
  show ?case
    unfolding Del_loop_Cons Cons.IH
    by (simp add: delete_conv')
qed

lemma keys_Del_loop:
  "set (map fst (data (fst (Del_loop ks (qc, n))))) = set (map fst (data qc)) - set ks"
proof (induction ks arbitrary: qc n)
  case Nil
  then show ?case by simp
next
  case (Cons k ks)
  show ?case
    unfolding Del_loop_Cons Cons.IH
    by (auto simp: delete_keys)
qed

lemma data_Del: "data (Del c qc) = data (fst (Del_loop (bucket qc c) (qc, 0)))"
  by (simp add: Del_def bucket_def Let_def split_beta)

lemma deps_Del:
  "corpKeyDeps (Del c qc) =
     AList.delete c (map (\<lambda>(c', keys). (c', filter (\<lambda>x. x \<notin> set (bucket qc c)) keys)) (corpKeyDeps qc))"
  by (simp add: Del_def bucket_def[symmetric] Let_def split_beta deps_Del_loop)

lemma map_of_map_snd:
  "map_of (map (\<lambda>(c, keys). (c, f keys)) al) c = map_option f (map_of al c)"
  by (induction al) auto

lemma bucket_Del:
  "bucket (Del c qc) c' =
     (if c' = c then [] else filter (\<lambda>x. x \<notin> set (bucket qc c)) (bucket qc c'))"
  by (auto simp: bucket_def[of "Del c qc"] deps_Del delete_conv' map_of_map_snd bucket_def[of qc c']
      split: option.splits)

lemma inv_Del:
  assumes "reverse_index_inv qc"
  shows "reverse_index_inv (Del corpusID qc)"
  unfolding reverse_index_inv_def
proof (intro ballI)
  fix key c
  assume k: "key \<in> set (map fst (data (Del corpusID qc)))" and c: "c \<in> set (key_corpora key)"
  from k have "key \<in> set (map fst (data qc)) - set (bucket qc corpusID)"
    unfolding data_Del keys_Del_loop .
  then have k1: "key \<in> set (map fst (data qc))" and k2: "key \<notin> set (bucket qc corpusID)"
    by blast+
  from assms k1 c have b: "key \<in> set (bucket qc c)" by (auto simp: reverse_index_inv_def)
  with k2 have "c \<noteq> corpusID" by auto
  with b k2 show "key \<in> set (bucket (Del corpusID qc) c)" by (simp add: bucket_Del)
qed

lemma Del_purges:
  assumes "key \<in> set (bucket qc corpusID)"
  shows "map_of (data (Del corpusID qc)) key = None"
    and "\<forall>(c, keys) \<in> set (corpKeyDeps (Del corpusID qc)). key \<notin> set keys"
  using assms by (auto simp: data_Del data_Del_loop deps_Del AList.delete_eq)

lemma Del_no_bucket: "map_of (corpKeyDeps (Del corpusID qc)) corpusID = None"
  by (simp add: deps_Del delete_conv')

lemma Get_after_Del:
  assumes "reverse_index_inv qc" and "Attrs qry = []"
    and "corpusID \<in> set (key_corpora (mkKey p (Aligned qry)))"
  shows "Get (Del corpusID qc) p qry = None"
proof (cases "map_of (data qc) (mkKey p (Aligned qry))")
  case None
  then show ?thesis using assms(2) by (simp add: Get_def data_Del data_Del_loop)
next
  case (Some v)
  then have "mkKey p (Aligned qry) \<in> set (map fst (data qc))"
    by (auto dest: map_of_SomeD intro: rev_image_eqI)
  with assms(1,3) have "mkKey p (Aligned qry) \<in> set (bucket qc corpusID)"
    by (auto simp: reverse_index_inv_def)
  then show ?thesis using assms(2) by (simp add: Get_def data_Del data_Del_loop)
qed

subsection \<open>Buckets without repetition, idempotence of \<open>Set\<close>\<close>

lemma set_update_subset: "set (AList.update k v al) \<subseteq> insert (k, v) (set al)"
  by (induction al) auto

lemma distinct_setKey:
  assumes "\<forall>(c, keys) \<in> set (corpKeyDeps qc). distinct keys"
  shows "\<forall>(c, keys) \<in> set (corpKeyDeps (setKeyCorpusDependency c0 k qc)). distinct keys"
proof (cases "map_of (corpKeyDeps qc) c0")
  case None
  then show ?thesis
    using assms set_update_subset[of c0 "[k]" "corpKeyDeps qc"]
    by (auto simp: setKeyCorpusDependency_def)
next
  case (Some keys)
  then have "(c0, keys) \<in> set (corpKeyDeps qc)" by (rule map_of_SomeD)
  with assms have "distinct keys" by auto
  then show ?thesis
    using assms Some set_update_subset[of c0 "keys @ [k]" "corpKeyDeps qc"]
    by (auto simp: setKeyCorpusDependency_def)
qed

lemma distinct_fold_setKey:
  "\<forall>(c, keys) \<in> set (corpKeyDeps qc). distinct keys \<Longrightarrow>
   \<forall>(c, keys) \<in> set (corpKeyDeps (fold (\<lambda>a. setKeyCorpusDependency a k) as qc)). distinct keys"
proof (induction as arbitrary: qc)
  case Nil
  then show ?case by simp
next
  case (Cons a as)
  have "\<forall>(c, keys) \<in> set (corpKeyDeps (setKeyCorpusDependency a k qc)). distinct keys"
    by (rule distinct_setKey[OF Cons.prems])
  from Cons.IH[OF this] show ?case by simp
qed

lemma distinct_Set:
  assumes "\<forall>(c, keys) \<in> set (corpKeyDeps qc). distinct keys"
  shows "\<forall>(c, keys) \<in> set (corpKeyDeps (Set corpusID qry val qc)). distinct keys"
proof (cases "Attrs qry = []")
  case False
  then show ?thesis using assms by (simp add: Set_def)
next
  case True
  have "\<forall>(c, keys) \<in> set (corpKeyDeps (qc\<lparr>data := d\<rparr>)). distinct keys" for d
    using assms by simp
  from distinct_fold_setKey[OF distinct_setKey[OF this]] show ?thesis
    using True by (simp add: Set_def Let_def)
qed

lemma distinct_Del:
  assumes "\<forall>(c, keys) \<in> set (corpKeyDeps qc). distinct keys"
  shows "\<forall>(c, keys) \<in> set (corpKeyDeps (Del corpusID qc)). distinct keys"
  using assms by (auto simp: deps_Del AList.delete_eq)

lemma reachable_distinct:
  "cache_reachable qc \<Longrightarrow> \<forall>(c, keys) \<in> set (corpKeyDeps qc). distinct keys"
proof (induction rule: cache_reachable.induct)
  case reach_New
  then show ?case by (simp add: NewEmptyQueryCache_def)
next
  case (reach_Set qc corpusID qry val)
  then show ?case by (intro distinct_Set)
next
  case (reach_Del qc corpusID)
  then show ?case by (intro distinct_Del)
qed

lemma setKey_present: "k \<in> set (bucket qc c) \<Longrightarrow> setKeyCorpusDependency c k qc = qc"
  by (auto simp: bucket_def setKeyCorpusDependency_def split: option.splits)

lemma fold_setKey_present:
  "\<forall>a \<in> set as. k \<in> set (bucket qc a) \<Longrightarrow> fold (\<lambda>a. setKeyCorpusDependency a k) as qc = qc"
  by (induction as) (auto simp: setKey_present)

lemma Set_idem: "Set corpusID qry val (Set corpusID qry val qc) = Set corpusID qry val qc"
proof (cases "Attrs qry = []")
  case False
  then show ?thesis by (simp add: Set_def)
next
  case True
  let ?S = "Set corpusID qry val qc"
  let ?k = "mkKey corpusID (Aligned qry)"
  have d: "?S\<lparr>data := AList.update ?k val (data ?S)\<rparr> = ?S"
    by (simp add: data_Set[OF True])
  have b: "\<forall>a \<in> set (corpusID # Aligned qry). ?k \<in> set (bucket ?S a)"
    by (simp add: bucket_Set[OF True])
  have "Set corpusID qry val ?S =
      fold (\<lambda>a. setKeyCorpusDependency a ?k) (Aligned qry) (setKeyCorpusDependency corpusID ?k ?S)"
    using True unfolding Set_def[of corpusID qry val ?S] Let_def d by simp
  also have "\<dots> = ?S"
    using b by (simp add: setKey_present fold_setKey_present)
  finally show ?thesis .
qed

section \<open>The claims about the empty-query cache\<close>

lemmas cache_eval =
  Set_def Del_def Get_def mkKey_def setKeyCorpusDependency_def pruneKeyInDeps_def bucket_def
  reverse_index_inv_def key_corpora_def NewEmptyQueryCache_def Let_def

text \<open>
  Claim C8. For every cache state, corpus ID and query payload whose attribute map is
  non-empty, \<open>Get\<close> returns a miss (nil), whatever the cache stores.
\<close>
theorem Get_miss_on_attrs: "Attrs qry \<noteq> [] \<Longrightarrow> Get qc corpusID qry = None"
  by (simp add: Get_def)

text \<open>
  C8 at a cache that stores a value under the key of the query: the filtered query misses.
\<close>
theorem Get_miss_on_attrs_witness:
  "Attrs \<lparr>Attrs = [(''doc.author'', ())], Aligned = []\<rparr> \<noteq> [] \<and>
   map_of (data \<lparr>data = [(''cs'', Some (7::nat))], corpKeyDeps = [(''cs'', [''cs''])]\<rparr>)
     (mkKey ''cs'' []) = Some (Some 7) \<and>
   Get \<lparr>data = [(''cs'', Some (7::nat))], corpKeyDeps = [(''cs'', [''cs''])]\<rparr> ''cs''
     \<lparr>Attrs = [(''doc.author'', ())], Aligned = []\<rparr> = None"
  using Get_miss_on_attrs
    [of "\<lparr>Attrs = [(''doc.author'', ())], Aligned = []\<rparr>"
        "\<lparr>data = [(''cs'', Some (7::nat))], corpKeyDeps = [(''cs'', [''cs''])]\<rparr>" "''cs''"]
  by (simp add: mkKey_def)

text \<open>
  Claim C6, amended. From a state that satisfies the reverse-index invariant, \<open>Set\<close>
  yields a state that satisfies it again when neither the primary nor an aligned corpus ID
  contains the key delimiter \<open>:\<close>, and \<open>Del\<close> of any corpus ID yields a state that
  satisfies it again.
\<close>
theorem Set_Del_preserve_reverse_index:
  "reverse_index_inv qc \<Longrightarrow>
   ((\<forall>c \<in> set (corpusID # Aligned qry). CHR '':'' \<notin> set c) \<longrightarrow>
      reverse_index_inv (Set corpusID qry val qc)) \<and>
   reverse_index_inv (Del corpusID' qc)"
  by (simp add: inv_Set inv_Del)

text \<open>
  C6 as stated fails: \<open>Set\<close> for the corpus ID \<open>a:b\<close> stores the key \<open>a:b\<close>, which is
  also the key of primary \<open>b\<close> aligned with \<open>a\<close>, and links it to the bucket of \<open>a:b\<close>
  only; the corpus IDs \<open>a\<close> and \<open>b\<close> appearing in the stored key have no bucket.
\<close>
theorem Set_breaks_reverse_index_counterexample:
  "reverse_index_inv (NewEmptyQueryCache :: nat EmptyQueryCache) \<and>
   \<not> reverse_index_inv
       (Set ''a:b'' \<lparr>Attrs = ([] :: (string \<times> unit) list), Aligned = []\<rparr> (Some (1::nat))
          NewEmptyQueryCache)"
  by (simp add: cache_eval)

text \<open>
  C6 amended, at the cache holding the listing of \<open>cs\<close> aligned with \<open>en\<close> and \<open>de\<close>.
\<close>
theorem Set_Del_preserve_reverse_index_witness:
  "reverse_index_inv
     \<lparr>data = [(''en:de:cs'', Some (1::nat))],
      corpKeyDeps = [(''cs'', [''en:de:cs'']), (''en'', [''en:de:cs'']), (''de'', [''en:de:cs''])]\<rparr> \<and>
   CHR '':'' \<notin> set ''sk'' \<and> CHR '':'' \<notin> set ''en'' \<and>
   reverse_index_inv
     (Set ''sk'' \<lparr>Attrs = ([] :: (string \<times> unit) list), Aligned = [''en'']\<rparr> (Some 2)
        \<lparr>data = [(''en:de:cs'', Some (1::nat))],
         corpKeyDeps = [(''cs'', [''en:de:cs'']), (''en'', [''en:de:cs'']), (''de'', [''en:de:cs''])]\<rparr>) \<and>
   reverse_index_inv
     (Del ''de''
        \<lparr>data = [(''en:de:cs'', Some (1::nat))],
         corpKeyDeps = [(''cs'', [''en:de:cs'']), (''en'', [''en:de:cs'']), (''de'', [''en:de:cs''])]\<rparr>)"
proof -
  let ?q = "\<lparr>data = [(''en:de:cs'', Some (1::nat))],
      corpKeyDeps = [(''cs'', [''en:de:cs'']), (''en'', [''en:de:cs'']), (''de'', [''en:de:cs''])]\<rparr>"
  have h: "reverse_index_inv ?q"
    by (simp add: reverse_index_inv_def key_corpora_def bucket_def)
  have c: "\<forall>c \<in> set (''sk'' # Aligned \<lparr>Attrs = ([] :: (string \<times> unit) list), Aligned = [''en'']\<rparr>).
      CHR '':'' \<notin> set c"
    by simp
  have n: "CHR '':'' \<notin> set ''sk'' \<and> CHR '':'' \<notin> set ''en''"
    by simp
  from Set_Del_preserve_reverse_index
         [OF h, of "''sk''" "\<lparr>Attrs = ([] :: (string \<times> unit) list), Aligned = [''en'']\<rparr>" "Some 2" "''de''"]
       h c n
  show ?thesis by blast
qed

text \<open>
  Claim C7, amended. After \<open>Del corpusID\<close>, every key that was listed in the bucket of
  \<open>corpusID\<close> is absent from the stored data and from every bucket of the reverse index,
  and \<open>corpusID\<close> has no bucket; consequently, if the state before satisfied the
  reverse-index invariant, a later \<open>Get\<close> of any query without attributes whose key
  mentions \<open>corpusID\<close> returns a miss.
\<close>
theorem Del_evicts_bucket:
  "(\<forall>key \<in> set (bucket qc corpusID).
      map_of (data (Del corpusID qc)) key = None \<and>
      (\<forall>(c, keys) \<in> set (corpKeyDeps (Del corpusID qc)). key \<notin> set keys)) \<and>
   map_of (corpKeyDeps (Del corpusID qc)) corpusID = None \<and>
   (reverse_index_inv qc \<longrightarrow> Attrs qry = [] \<longrightarrow>
    corpusID \<in> set (key_corpora (mkKey p (Aligned qry))) \<longrightarrow>
    Get (Del corpusID qc) p qry = None)"
  using Del_purges[of _ qc corpusID] Del_no_bucket[of corpusID qc]
    Get_after_Del[of qc qry corpusID p]
  by blast

text \<open>
  C7 as stated fails in a state built by \<open>Set\<close> alone: after \<open>Set\<close> for the corpus ID
  \<open>a:b\<close> and \<open>Del\<close> of \<open>a\<close>, the query for primary \<open>b\<close> aligned with \<open>a\<close>, whose
  key mentions \<open>a\<close> as aligned corpus, still hits.
\<close>
theorem Get_after_Del_hit_counterexample:
  "''a'' \<in> set (''b'' # Aligned \<lparr>Attrs = ([] :: (string \<times> unit) list), Aligned = [''a'']\<rparr>) \<and>
   Get (Del ''a''
          (Set ''a:b'' \<lparr>Attrs = ([] :: (string \<times> unit) list), Aligned = []\<rparr> (Some (1::nat))
             NewEmptyQueryCache))
       ''b'' \<lparr>Attrs = ([] :: (string \<times> unit) list), Aligned = [''a'']\<rparr> = Some 1"
  by (simp add: cache_eval)

text \<open>
  C7 amended, at the scenario of the specification: the listing of \<open>cs\<close> aligned with
  \<open>en\<close> and \<open>de\<close> is cached, then \<open>de\<close> is deleted.
\<close>
theorem Del_evicts_bucket_witness:
  "''en:de:cs'' \<in> set (bucket
      \<lparr>data = [(''en:de:cs'', Some (1::nat))],
       corpKeyDeps = [(''cs'', [''en:de:cs'']), (''en'', [''en:de:cs'']), (''de'', [''en:de:cs''])]\<rparr>
      ''de'') \<and>
   reverse_index_inv
     \<lparr>data = [(''en:de:cs'', Some (1::nat))],
      corpKeyDeps = [(''cs'', [''en:de:cs'']), (''en'', [''en:de:cs'']), (''de'', [''en:de:cs''])]\<rparr> \<and>
   ''de'' \<in> set (key_corpora (mkKey ''cs''
      (Aligned \<lparr>Attrs = ([] :: (string \<times> unit) list), Aligned = [''en'', ''de'']\<rparr>))) \<and>
   map_of (data (Del ''de''
      \<lparr>data = [(''en:de:cs'', Some (1::nat))],
       corpKeyDeps = [(''cs'', [''en:de:cs'']), (''en'', [''en:de:cs'']), (''de'', [''en:de:cs''])]\<rparr>))
     ''en:de:cs'' = None \<and>
   Get (Del ''de''
      \<lparr>data = [(''en:de:cs'', Some (1::nat))],
       corpKeyDeps = [(''cs'', [''en:de:cs'']), (''en'', [''en:de:cs'']), (''de'', [''en:de:cs''])]\<rparr>)
     ''cs'' \<lparr>Attrs = ([] :: (string \<times> unit) list), Aligned = [''en'', ''de'']\<rparr> = None"
proof -
  let ?q = "\<lparr>data = [(''en:de:cs'', Some (1::nat))],
      corpKeyDeps = [(''cs'', [''en:de:cs'']), (''en'', [''en:de:cs'']), (''de'', [''en:de:cs''])]\<rparr>"
  let ?p = "\<lparr>Attrs = ([] :: (string \<times> unit) list), Aligned = [''en'', ''de'']\<rparr>"
  have b: "''en:de:cs'' \<in> set (bucket ?q ''de'')"
    by (simp add: bucket_def)
  have h: "reverse_index_inv ?q"
    by (simp add: reverse_index_inv_def key_corpora_def bucket_def)
  have m: "''de'' \<in> set (key_corpora (mkKey ''cs'' (Aligned ?p)))"
    by (simp add: key_corpora_def mkKey_def)
  have e: "Attrs ?p = []" by simp
  from Del_evicts_bucket[of ?q "''de''" ?p "''cs''"] b h m e
  show ?thesis by blast
qed

text \<open>
  Claim C10. In every cache state (the fields are unexported, so these are the states built
  from \<open>NewEmptyQueryCache\<close> by \<open>Set\<close> and \<open>Del\<close>) each bucket of the reverse index
  holds a key at most once, and \<open>Set\<close> is idempotent: a second call with the same
  arguments leaves stored data and reverse index as the first call left them.
\<close>
theorem buckets_distinct_and_Set_idempotent:
  "(cache_reachable qc \<longrightarrow> (\<forall>(c, keys) \<in> set (corpKeyDeps qc). distinct keys)) \<and>
   Set corpusID qry val (Set corpusID qry val qc) = Set corpusID qry val qc"
  using reachable_distinct[of qc] Set_idem[of corpusID qry val qc] by blast

text \<open>
  C10 at the cache after one \<open>Set\<close> whose aligned list repeats the primary corpus.
\<close>
theorem buckets_distinct_and_Set_idempotent_witness:
  "cache_reachable
     (Set ''cs'' \<lparr>Attrs = ([] :: (string \<times> unit) list), Aligned = [''en'', ''cs'']\<rparr> (Some (1::nat))
        NewEmptyQueryCache) \<and>
   list_all (\<lambda>(c, keys). distinct keys) (corpKeyDeps
       (Set ''cs'' \<lparr>Attrs = ([] :: (string \<times> unit) list), Aligned = [''en'', ''cs'']\<rparr> (Some (1::nat))
          NewEmptyQueryCache)) \<and>
   corpKeyDeps
     (Set ''cs'' \<lparr>Attrs = ([] :: (string \<times> unit) list), Aligned = [''en'', ''cs'']\<rparr> (Some (1::nat))
        NewEmptyQueryCache) = [(''cs'', [''en:cs:cs'']), (''en'', [''en:cs:cs''])]"
proof -
  let ?q = "Set ''cs'' \<lparr>Attrs = ([] :: (string \<times> unit) list), Aligned = [''en'', ''cs'']\<rparr> (Some (1::nat))
        NewEmptyQueryCache"
  have r: "cache_reachable ?q"
    by (intro reach_Set reach_New)
  have v: "corpKeyDeps ?q = [(''cs'', [''en:cs:cs'']), (''en'', [''en:cs:cs''])]"
    by (simp add: cache_eval)
  from buckets_distinct_and_Set_idempotent[of ?q] r
  have "\<forall>(c, keys) \<in> set (corpKeyDeps ?q). distinct keys" by blast
  then have "list_all (\<lambda>(c, keys). distinct keys) (corpKeyDeps ?q)"
    unfolding list_all_iff .
  with r v show ?thesis by blast
qed

section \<open>Properties of the scheduler\<close>

subsection \<open>Registering and dequeuing\<close>

lemma filter_update_le:
  "length (filter P (AList.update k v al)) \<le> Suc (length (filter P al))"
  by (induction al) auto

lemma filter_update_not:
  "\<not> P (k, v) \<Longrightarrow> length (filter P (AList.update k v al)) \<le> length (filter P al)"
  by (induction al) auto

lemma numOfUnfinishedJobs_lock [simp]:
  "numOfUnfinishedJobs (a\<lparr>jobQueueLock := l\<rparr>) = numOfUnfinishedJobs a"
  by (simp add: numOfUnfinishedJobs_def)

lemma numOfUnfinishedJobs_queue [simp]:
  "numOfUnfinishedJobs (a\<lparr>jobQueue := q\<rparr>) = numOfUnfinishedJobs a"
  by (simp add: numOfUnfinishedJobs_def)

lemma registerJob_fields:
  "conf (fst (registerJob j a)) = conf a"
  "jobList (fst (registerJob j a)) = AList.update (GetID j) j (jobList a)"
  "jobQueue (fst (registerJob j a)) = jobQueue a"
  "jobQueueLock (fst (registerJob j a)) = jobQueueLock a"
  "jobDeps (fst (registerJob j a)) = jobDeps a"
  "started (fst (registerJob j a)) = started a"
  "syncUpdates (fst (registerJob j a)) =
     syncUpdates a @ [\<lparr>chan_job = GetID j, chan_items = [], chan_closed = False\<rparr>]"
  "snd (registerJob j a) = length (syncUpdates a)"
  by (simp_all add: registerJob_def Let_def)

lemma send_fields:
  "conf (send ch item a) = conf a"
  "jobList (send ch item a) = jobList a"
  "jobQueue (send ch item a) = jobQueue a"
  "jobQueueLock (send ch item a) = jobQueueLock a"
  "jobDeps (send ch item a) = jobDeps a"
  "started (send ch item a) = started a"
  by (simp_all add: send_def)

lemma dequeueAndRunJob_Cons:
  "jobQueue a = (fn, j) # rest \<Longrightarrow>
   dequeueAndRunJob a =
     (fst (registerJob j (a\<lparr>jobQueue := rest\<rparr>)))
       \<lparr>started := started a @ [(fn, length (syncUpdates a))]\<rparr>"
  by (simp add: dequeueAndRunJob_def Dequeue_def split_beta registerJob_fields)

lemma dequeueAndRunJob_Nil: "jobQueue a = [] \<Longrightarrow> dequeueAndRunJob a = a"
  by (simp add: dequeueAndRunJob_def Dequeue_def)

lemma dequeueJobAsFailed_Cons:
  "jobQueue a = (fn, j) # rest \<Longrightarrow>
   dequeueJobAsFailed err a =
     Inr (send (length (syncUpdates a)) (AsFinished (WithError err j))
            (fst (registerJob (WithError err j) (a\<lparr>jobQueue := rest\<rparr>))))"
  by (simp add: dequeueJobAsFailed_def Dequeue_def split_beta Let_def registerJob_fields)

lemma dequeueJobAsFailed_Nil: "jobQueue a = [] \<Longrightarrow> dequeueJobAsFailed err a = Inl NilDereference"
  by (simp add: dequeueJobAsFailed_def Dequeue_def)

lemma GetID_WithError [simp]: "GetID (WithError err j) = GetID j"
  by (simp add: WithError_def)

lemma IsFinished_WithError [simp]: "IsFinished (WithError err j) = IsFinished j"
  by (simp add: WithError_def)

lemma GetError_WithError [simp]: "GetError (WithError err j) = err"
  by (simp add: WithError_def)

lemma IsFinished_AsFinished [simp]: "IsFinished (AsFinished j)"
  by (simp add: AsFinished_def)

lemma dequeueAndRunJob_count:
  "numOfUnfinishedJobs (dequeueAndRunJob a) \<le> Suc (numOfUnfinishedJobs a)"
  "conf (dequeueAndRunJob a) = conf a"
proof -
  show "numOfUnfinishedJobs (dequeueAndRunJob a) \<le> Suc (numOfUnfinishedJobs a)"
  proof (cases "jobQueue a")
    case Nil
    then show ?thesis by (simp add: dequeueAndRunJob_Nil)
  next
    case (Cons x rest)
    then obtain fn j where "jobQueue a = (fn, j) # rest" by (cases x) auto
    then show ?thesis
      by (simp add: dequeueAndRunJob_Cons numOfUnfinishedJobs_def registerJob_fields
          filter_update_le)
  qed
  show "conf (dequeueAndRunJob a) = conf a"
  proof (cases "jobQueue a")
    case Nil
    then show ?thesis by (simp add: dequeueAndRunJob_Nil)
  next
    case (Cons x rest)
    then obtain fn j where "jobQueue a = (fn, j) # rest" by (cases x) auto
    then show ?thesis by (simp add: dequeueAndRunJob_Cons registerJob_fields)
  qed
qed

lemma dequeueJobAsFailed_count:
  assumes "dequeueJobAsFailed err a = Inr a'"
  shows "numOfUnfinishedJobs a' \<le> Suc (numOfUnfinishedJobs a)" and "conf a' = conf a"
proof -
  from assms obtain x rest where q: "jobQueue a = x # rest"
    by (cases "jobQueue a") (auto simp: dequeueJobAsFailed_Nil)
  obtain fn j where "x = (fn, j)" by (cases x) auto
  with q assms have a': "a' = send (length (syncUpdates a)) (AsFinished (WithError err j))
            (fst (registerJob (WithError err j) (a\<lparr>jobQueue := rest\<rparr>)))"
    by (simp add: dequeueJobAsFailed_Cons)
  show "numOfUnfinishedJobs a' \<le> Suc (numOfUnfinishedJobs a)"
    by (simp add: a' numOfUnfinishedJobs_def send_fields registerJob_fields filter_update_le)
  show "conf a' = conf a"
    by (simp add: a' send_fields registerJob_fields)
qed

lemma admit_count:
  assumes "admit n a = Inr a'" and "numOfUnfinishedJobs a \<le> n"
    and "int (numOfUnfinishedJobs a) \<le> MaxNumConcurrentJobs (conf a)"
  shows "int (numOfUnfinishedJobs a') \<le> MaxNumConcurrentJobs (conf a')" and "conf a' = conf a"
proof -
  have "conf a' = conf a \<and>
        (if int n < MaxNumConcurrentJobs (conf a)
         then numOfUnfinishedJobs a' \<le> Suc (numOfUnfinishedJobs a)
         else numOfUnfinishedJobs a' = numOfUnfinishedJobs a)"
    using assms(1) dequeueAndRunJob_count[of a] dequeueJobAsFailed_count[of _ a]
    unfolding admit_def
    by (auto split: if_splits option.splits sum.splits)
  then show "int (numOfUnfinishedJobs a') \<le> MaxNumConcurrentJobs (conf a')" and "conf a' = conf a"
    using assms(2,3) by (auto split: if_splits)
qed

subsection \<open>The concurrency ceiling\<close>

lemma tick_unlocked:
  "\<not> jobQueueLock a \<Longrightarrow> tick a = admit (numOfUnfinishedJobs a) (a\<lparr>jobQueueLock := True\<rparr>)"
  by (simp add: tick_def)

lemma tick_count:
  assumes "tick a = Inr a'" and "int (numOfUnfinishedJobs a) \<le> MaxNumConcurrentJobs (conf a)"
  shows "int (numOfUnfinishedJobs a') \<le> MaxNumConcurrentJobs (conf a')" and "conf a' = conf a"
proof -
  from assms(1) have l: "\<not> jobQueueLock a" by (auto simp: tick_def split: if_splits)
  from assms(1) have e: "admit (numOfUnfinishedJobs a) (a\<lparr>jobQueueLock := True\<rparr>) = Inr a'"
    by (simp add: tick_unlocked[OF l])
  from admit_count[OF e] assms(2)
  show "int (numOfUnfinishedJobs a') \<le> MaxNumConcurrentJobs (conf a')" and "conf a' = conf a"
    by simp_all
qed

lemma finish_count:
  assumes "tableUpdate_step clearOldJobs
             \<lparr>action = tableActionFinishJob, itemID = jobID, data_upd = d\<rparr> a = Inr a'"
  shows "numOfUnfinishedJobs a' \<le> numOfUnfinishedJobs a" and "conf a' = conf a"
  using assms
  by (auto simp: tableUpdate_step_def tableActionFinishJob_def tableActionUpdateJob_def Let_def
      numOfUnfinishedJobs_def filter_update_not split: option.splits)

lemma enqueue_count:
  assumes "EnqueueJob fn j a = Inr a'"
  shows "numOfUnfinishedJobs a' = numOfUnfinishedJobs a" and "conf a' = conf a"
  using assms by (auto simp: EnqueueJob_def split: if_splits)

lemma enqueue_after_count:
  assumes "EqueueJobAfter fn j p a = Inr a'"
  shows "numOfUnfinishedJobs a' = numOfUnfinishedJobs a" and "conf a' = conf a"
  using assms by (auto simp: EqueueJobAfter_def numOfUnfinishedJobs_def split: if_splits)

lemma sched_reach_inv:
  assumes "sched_reach a0 a" and "int (numOfUnfinishedJobs a0) \<le> MaxNumConcurrentJobs (conf a0)"
  shows "conf a = conf a0 \<and> int (numOfUnfinishedJobs a) \<le> MaxNumConcurrentJobs (conf a)"
  using assms
proof (induction rule: sched_reach.induct)
  case sched_start
  then show ?case by simp
next
  case (sched_enqueue a fn j a')
  then show ?case using enqueue_count[of fn j a a'] by auto
next
  case (sched_enqueue_after a fn j parentJobID a')
  then show ?case using enqueue_after_count[of fn j parentJobID a a'] by auto
next
  case (sched_tick a a')
  then show ?case using tick_count[of a a'] by auto
next
  case (sched_tick_stale a n a')
  then show ?case using admit_count[of n "a\<lparr>jobQueueLock := True\<rparr>" a'] by auto
next
  case (sched_finish a clearOldJobs jobID d a')
  then show ?case using finish_count[of clearOldJobs jobID d a a'] by auto
qed

lemma NewActions_count: "numOfUnfinishedJobs (NewActions c loaded) = 0"
  by (simp add: NewActions_def numOfUnfinishedJobs_def)

lemma ceiling_from_NewActions:
  assumes "sched_reach (NewActions c loaded) a" and "0 \<le> MaxNumConcurrentJobs c"
  shows "int (numOfUnfinishedJobs a) \<le> MaxNumConcurrentJobs c"
proof -
  have "int (numOfUnfinishedJobs (NewActions c loaded :: 'a Actions))
          \<le> MaxNumConcurrentJobs (conf (NewActions c loaded :: 'a Actions))"
    using assms(2) by (simp add: NewActions_count) (simp add: NewActions_def)
  from sched_reach_inv[OF assms(1) this] show ?thesis
    by (auto simp: NewActions_def)
qed

text \<open>
  Claim C5. In every state reached by scheduler steps (jobs enqueued, ticks of the admit
  ticker, \<open>FinishJob\<close> events applied) from a state in which the number of unfinished
  table entries does not exceed \<open>MaxNumConcurrentJobs\<close>, it does not exceed it either: a
  tick registers a job only when the count it read is strictly below the ceiling (also
  when \<open>FinishJob\<close> events were applied since it read the count), and finishing never
  raises the count. The state \<open>NewActions\<close> returns has no table entry.
\<close>
theorem unfinished_never_exceeds_ceiling:
  "sched_reach a0 a \<Longrightarrow>
   int (numOfUnfinishedJobs a0) \<le> MaxNumConcurrentJobs (conf a0) \<Longrightarrow>
   int (numOfUnfinishedJobs a) \<le> MaxNumConcurrentJobs (conf a0)"
  using sched_reach_inv[of a0 a] by auto

lemmas sched_eval =
  NewActions_def conf2_def job_a_def job_b_def tick_def admit_def numOfUnfinishedJobs_def
  EnqueueJob_def Enqueue_def PeekID_def Dequeue_def DelayNext_def dequeueAndRunJob_def
  dequeueJobAsFailed_def registerJob_def send_def WithError_def AsFinished_def Let_def
  MustWait_def HasFailedParent_def

text \<open>
  C5 with a ceiling of one: two jobs are enqueued, the first tick admits \<open>a\<close>, the second
  admits nothing.
\<close>
theorem unfinished_never_exceeds_ceiling_witness:
  "int (numOfUnfinishedJobs (NewActions (conf2\<lparr>MaxNumConcurrentJobs := 1\<rparr>) [] :: nat Actions))
     \<le> MaxNumConcurrentJobs (conf (NewActions (conf2\<lparr>MaxNumConcurrentJobs := 1\<rparr>) [] :: nat Actions)) \<and>
   sched_reach (NewActions (conf2\<lparr>MaxNumConcurrentJobs := 1\<rparr>) [] :: nat Actions)
     ((NewActions (conf2\<lparr>MaxNumConcurrentJobs := 1\<rparr>) [])
        \<lparr>jobList := [(''a'', job_a)], jobQueue := [(2, job_b)], jobQueueLock := True,
         syncUpdates := [\<lparr>chan_job = ''a'', chan_items = [], chan_closed = False\<rparr>],
         started := [(1, 0)]\<rparr>) \<and>
   int (numOfUnfinishedJobs
     ((NewActions (conf2\<lparr>MaxNumConcurrentJobs := 1\<rparr>) [] :: nat Actions)
        \<lparr>jobList := [(''a'', job_a)], jobQueue := [(2, job_b)], jobQueueLock := True,
         syncUpdates := [\<lparr>chan_job = ''a'', chan_items = [], chan_closed = False\<rparr>],
         started := [(1, 0)]\<rparr>)) \<le> 1"
proof -
  let ?a0 = "NewActions (conf2\<lparr>MaxNumConcurrentJobs := 1\<rparr>) [] :: nat Actions"
  let ?a1 = "?a0\<lparr>jobQueue := [(1, job_a)]\<rparr>"
  let ?a2 = "?a0\<lparr>jobQueue := [(1, job_a), (2, job_b)]\<rparr>"
  let ?a3 = "?a0\<lparr>jobList := [(''a'', job_a)], jobQueue := [(2, job_b)],
         syncUpdates := [\<lparr>chan_job = ''a'', chan_items = [], chan_closed = False\<rparr>],
         started := [(1, 0)]\<rparr>"
  let ?a4 = "?a0\<lparr>jobList := [(''a'', job_a)], jobQueue := [(2, job_b)], jobQueueLock := True,
         syncUpdates := [\<lparr>chan_job = ''a'', chan_items = [], chan_closed = False\<rparr>],
         started := [(1, 0)]\<rparr>"
  have h: "int (numOfUnfinishedJobs ?a0) \<le> MaxNumConcurrentJobs (conf ?a0)"
    by (simp add: sched_eval)
  have e1: "EnqueueJob 1 job_a ?a0 = Inr ?a1" by (simp add: sched_eval)
  have e2: "EnqueueJob 2 job_b ?a1 = Inr ?a2" by (simp add: sched_eval)
  have t1: "tick ?a2 = Inr ?a3" by (simp add: sched_eval)
  have t2: "tick ?a3 = Inr ?a4" by (simp add: sched_eval)
  have r: "sched_reach ?a0 ?a4"
    by (rule sched_tick[OF sched_tick[OF sched_enqueue[OF sched_enqueue[OF sched_start e1] e2] t1] t2])
  have c: "MaxNumConcurrentJobs (conf ?a0) = 1" by (simp add: sched_eval)
  from unfinished_never_exceeds_ceiling[OF r h] h r c show ?thesis by simp
qed

subsection \<open>The table-update consumer and the exit snapshot\<close>

lemma UpdateJob_step:
  assumes "map_of (jobList a) jobID = Some cur"
  shows "tableUpdate_step clearOldJobs
           \<lparr>action = tableActionUpdateJob, itemID = jobID, data_upd = Some d\<rparr> a =
         Inr (a\<lparr>jobList := AList.update jobID
                 (if GetError cur \<noteq> None \<and> GetError d = None then WithError (GetError cur) d else d)
                 (jobList a)\<rparr>)"
  using assms by (simp add: tableUpdate_step_def Let_def)

lemma UpdateJob_missing:
  "map_of (jobList a) jobID = None \<Longrightarrow>
   tableUpdate_step clearOldJobs
     \<lparr>action = tableActionUpdateJob, itemID = jobID, data_upd = d\<rparr> a = Inl NilDereference"
  by (simp add: tableUpdate_step_def)

text \<open>
  Claim C4. An \<open>UpdateJob\<close> event for a job ID with a stored entry: if the stored entry
  carries an error and the incoming descriptor carries none, the entry becomes the incoming
  descriptor with the prior error re-attached; otherwise it becomes the incoming descriptor.
  No other entry changes.
\<close>
theorem UpdateJob_sticky_error:
  "map_of (jobList a) jobID = Some cur \<Longrightarrow>
   \<exists>a'. tableUpdate_step clearOldJobs
          \<lparr>action = tableActionUpdateJob, itemID = jobID, data_upd = Some d\<rparr> a = Inr a' \<and>
        map_of (jobList a') jobID =
          Some (if GetError cur \<noteq> None \<and> GetError d = None
                then WithError (GetError cur) d else d) \<and>
        (\<forall>k. k \<noteq> jobID \<longrightarrow> map_of (jobList a') k = map_of (jobList a) k)"
  by (simp add: UpdateJob_step update_conv')

text \<open>
  C4 at a table whose entry for \<open>a\<close> carries an error, updated with a descriptor without
  one.
\<close>
theorem UpdateJob_sticky_error_witness:
  "map_of (jobList ((NewActions conf2 [] :: nat Actions)
             \<lparr>jobList := [(''a'', WithError (Some ''disk full'') job_a)]\<rparr>)) ''a''
     = Some (WithError (Some ''disk full'') job_a) \<and>
   (\<exists>a'. tableUpdate_step (\<lambda>jl. jl)
          \<lparr>action = tableActionUpdateJob, itemID = ''a'',
           data_upd = Some (job_a\<lparr>GetNumRestarts := 1\<rparr>)\<rparr>
          ((NewActions conf2 [] :: nat Actions)
             \<lparr>jobList := [(''a'', WithError (Some ''disk full'') job_a)]\<rparr>) = Inr a' \<and>
        map_of (jobList a') ''a'' =
          Some (WithError (Some ''disk full'') (job_a\<lparr>GetNumRestarts := 1\<rparr>)))"
proof -
  let ?a = "(NewActions conf2 [] :: nat Actions)
             \<lparr>jobList := [(''a'', WithError (Some ''disk full'') job_a)]\<rparr>"
  have h: "map_of (jobList ?a) ''a'' = Some (WithError (Some ''disk full'') job_a)"
    by simp
  have e: "GetError (WithError (Some ''disk full'') job_a) \<noteq> None \<and>
           GetError (job_a\<lparr>GetNumRestarts := 1\<rparr>) = None"
    by (simp add: job_a_def WithError_def)
  from UpdateJob_sticky_error[OF h, of "\<lambda>jl. jl" "job_a\<lparr>GetNumRestarts := 1\<rparr>"] e h
  show ?thesis by auto
qed

text \<open>
  Claim C1, amended. Once the entry of a job ID is marked finished, a later non-finished
  \<open>UpdateJob\<close> event for the same ID is not ignored: the stored entry is replaced by the
  incoming descriptor, of which only the error field may differ (a prior error is kept),
  so the entry is no longer marked finished.
\<close>
theorem UpdateJob_overwrites_finished:
  "map_of (jobList a) jobID = Some cur \<Longrightarrow> IsFinished cur \<Longrightarrow> \<not> IsFinished d \<Longrightarrow>
   \<exists>a' e. tableUpdate_step clearOldJobs
            \<lparr>action = tableActionUpdateJob, itemID = jobID, data_upd = Some d\<rparr> a = Inr a' \<and>
          map_of (jobList a') jobID = Some e \<and> e \<noteq> cur \<and> \<not> IsFinished e \<and>
          e\<lparr>GetError := GetError d\<rparr> = d"
  by (auto simp: UpdateJob_step update_conv' WithError_def)

text \<open>
  C1 as stated fails: the table holds the finished descriptor of \<open>a\<close>, the event carries
  the unfinished one, and afterwards the table holds the unfinished one.
\<close>
theorem UpdateJob_not_ignored_counterexample:
  "map_of (jobList ((NewActions conf2 [] :: nat Actions)\<lparr>jobList := [(''a'', AsFinished job_a)]\<rparr>))
     ''a'' = Some (AsFinished job_a) \<and>
   IsFinished (AsFinished job_a) \<and> \<not> IsFinished job_a \<and>
   tableUpdate_step (\<lambda>jl. jl)
     \<lparr>action = tableActionUpdateJob, itemID = ''a'', data_upd = Some job_a\<rparr>
     ((NewActions conf2 [] :: nat Actions)\<lparr>jobList := [(''a'', AsFinished job_a)]\<rparr>)
     = Inr ((NewActions conf2 [] :: nat Actions)\<lparr>jobList := [(''a'', job_a)]\<rparr>) \<and>
   map_of (jobList ((NewActions conf2 [] :: nat Actions)\<lparr>jobList := [(''a'', job_a)]\<rparr>)) ''a''
     \<noteq> Some (AsFinished job_a)"
  by (simp add: tableUpdate_step_def Let_def AsFinished_def job_a_def NewActions_def)

text \<open>C1 amended, at the same table and event.\<close>
theorem UpdateJob_overwrites_finished_witness:
  "map_of (jobList ((NewActions conf2 [] :: nat Actions)\<lparr>jobList := [(''a'', AsFinished job_a)]\<rparr>))
     ''a'' = Some (AsFinished job_a) \<and>
   IsFinished (AsFinished job_a) \<and> \<not> IsFinished job_a \<and>
   (\<exists>a' e. tableUpdate_step (\<lambda>jl. jl)
            \<lparr>action = tableActionUpdateJob, itemID = ''a'', data_upd = Some job_a\<rparr>
            ((NewActions conf2 [] :: nat Actions)\<lparr>jobList := [(''a'', AsFinished job_a)]\<rparr>) = Inr a' \<and>
          map_of (jobList a') ''a'' = Some e \<and> e \<noteq> AsFinished job_a \<and> \<not> IsFinished e)"
proof -
  let ?a = "(NewActions conf2 [] :: nat Actions)\<lparr>jobList := [(''a'', AsFinished job_a)]\<rparr>"
  have h: "map_of (jobList ?a) ''a'' = Some (AsFinished job_a)" by simp
  have f: "IsFinished (AsFinished job_a)" by (simp add: AsFinished_def)
  have u: "\<not> IsFinished job_a" by (simp add: job_a_def)
  from UpdateJob_overwrites_finished[OF h f u, of "\<lambda>jl. jl"] h f u
  show ?thesis by blast
qed

lemma createJobList_unfinished:
  "(j \<in> set (createJobList True a)) = (\<exists>k. (k, j) \<in> set (jobList a) \<and> \<not> IsFinished j)"
  by (auto simp: createJobList_def intro: rev_image_eqI)

lemma createJobList_length: "length (createJobList True a) = numOfUnfinishedJobs a"
  by (simp add: createJobList_def numOfUnfinishedJobs_def)

text \<open>
  Claim C9. On cancellation with a configured status path, the list handed to the
  serializer holds exactly the table entries not marked finished, each once: every
  unfinished descriptor is in it and no finished one; without a configured path nothing is
  written.
\<close>
theorem goWaitExit_snapshot:
  "(StatusDataPath (conf a) \<noteq> [] \<longrightarrow>
      (\<exists>snapshot. goWaitExit a = SaveState (StatusDataPath (conf a)) snapshot \<and>
         (\<forall>j. (j \<in> set snapshot) = (\<exists>k. (k, j) \<in> set (jobList a) \<and> \<not> IsFinished j)) \<and>
         length snapshot = numOfUnfinishedJobs a)) \<and>
   (StatusDataPath (conf a) = [] \<longrightarrow> goWaitExit a = DiscardJobList)"
  by (simp add: goWaitExit_def createJobList_unfinished createJobList_length)

text \<open>
  C9 at a table with the finished job \<open>a\<close> and the unfinished job \<open>b\<close>, with and without
  a status path.
\<close>
theorem goWaitExit_snapshot_witness:
  "StatusDataPath (conf ((NewActions conf2 [] :: nat Actions)
      \<lparr>jobList := [(''a'', AsFinished job_a), (''b'', job_b)]\<rparr>)) \<noteq> [] \<and>
   goWaitExit ((NewActions conf2 [] :: nat Actions)
      \<lparr>jobList := [(''a'', AsFinished job_a), (''b'', job_b)]\<rparr>)
     = SaveState ''/var/frodo/status.json'' [job_b] \<and>
   StatusDataPath (conf ((NewActions (conf2\<lparr>StatusDataPath := []\<rparr>) [] :: nat Actions)
      \<lparr>jobList := [(''a'', AsFinished job_a), (''b'', job_b)]\<rparr>)) = [] \<and>
   goWaitExit ((NewActions (conf2\<lparr>StatusDataPath := []\<rparr>) [] :: nat Actions)
      \<lparr>jobList := [(''a'', AsFinished job_a), (''b'', job_b)]\<rparr>) = DiscardJobList"
proof -
  let ?a = "(NewActions conf2 [] :: nat Actions)
      \<lparr>jobList := [(''a'', AsFinished job_a), (''b'', job_b)]\<rparr>"
  let ?b = "(NewActions (conf2\<lparr>StatusDataPath := []\<rparr>) [] :: nat Actions)
      \<lparr>jobList := [(''a'', AsFinished job_a), (''b'', job_b)]\<rparr>"
  have p: "StatusDataPath (conf ?a) \<noteq> []" by (simp add: NewActions_def conf2_def)
  have q: "StatusDataPath (conf ?b) = []" by (simp add: NewActions_def conf2_def)
  have v: "goWaitExit ?a = SaveState ''/var/frodo/status.json'' [job_b]"
    by (simp add: goWaitExit_def createJobList_def NewActions_def conf2_def AsFinished_def
        job_a_def job_b_def)
  from goWaitExit_snapshot[of ?b] q have "goWaitExit ?b = DiscardJobList" by blast
  with p q v show ?thesis by blast
qed

subsection \<open>Jobs dequeued as failed\<close>

lemma dequeueJobAsFailed_channel:
  assumes "jobQueue a = (fn, j) # rest"
  shows "\<exists>a'. dequeueJobAsFailed err a = Inr a' \<and>
           jobQueue a' = rest \<and>
           jobList a' = AList.update (GetID j) (WithError err j) (jobList a) \<and>
           started a' = started a \<and>
           syncUpdates a' = syncUpdates a @
             [\<lparr>chan_job = GetID j, chan_items = [AsFinished (WithError err j)],
               chan_closed = False\<rparr>]"
  by (simp add: dequeueJobAsFailed_Cons[OF assms] send_fields registerJob_fields send_def)

lemma pump_open_channel:
  "\<not> chan_closed ch \<Longrightarrow> \<forall>u \<in> set (pump ch). action u = tableActionUpdateJob"
  by (simp add: pump_def)

lemma pump_closed_channel:
  "chan_closed ch \<Longrightarrow> action (last (pump ch)) = tableActionFinishJob"
  by (simp add: pump_def)

text \<open>
  Claim C3 at a queue whose head \<open>b\<close> has a failed parent: \<open>dequeueJobAsFailed\<close> dequeues
  the head, registers it with the error and sends the finished, failed descriptor, but
  leaves the channel open; what reaches \<open>tableUpdate\<close> for this channel is the one
  \<open>UpdateJob\<close> event and no \<open>FinishJob\<close> event.
\<close>
theorem dequeueJobAsFailed_leaves_channel_open:
  "dequeueJobAsFailed (Some ''failed to run job b due to failed parent(s)'')
     ((NewActions conf2 [] :: nat Actions)
        \<lparr>jobQueue := [(2, job_b)], jobDeps := [(''b'', [(''a'', ParentFinishedFailed)])]\<rparr>)
   = Inr ((NewActions conf2 [] :: nat Actions)
        \<lparr>jobList := [(''b'', WithError (Some ''failed to run job b due to failed parent(s)'') job_b)],
         jobQueue := [],
         jobDeps := [(''b'', [(''a'', ParentFinishedFailed)])],
         syncUpdates :=
           [\<lparr>chan_job = ''b'',
             chan_items = [AsFinished (WithError (Some ''failed to run job b due to failed parent(s)'') job_b)],
             chan_closed = False\<rparr>]\<rparr>) \<and>
   pump \<lparr>chan_job = ''b'',
         chan_items = [AsFinished (WithError (Some ''failed to run job b due to failed parent(s)'') job_b)],
         chan_closed = False\<rparr>
   = [\<lparr>action = tableActionUpdateJob, itemID = ''b'',
       data_upd = Some (AsFinished (WithError (Some ''failed to run job b due to failed parent(s)'') job_b))\<rparr>] \<and>
   tableActionUpdateJob \<noteq> tableActionFinishJob"
  by (simp add: sched_eval pump_def tableActionUpdateJob_def tableActionFinishJob_def)

lemma admit_full: "\<not> int n < MaxNumConcurrentJobs (conf a) \<Longrightarrow> admit n a = Inr a"
  by (simp add: admit_def)

lemma admit_empty:
  "int n < MaxNumConcurrentJobs (conf a) \<Longrightarrow> jobQueue a = [] \<Longrightarrow>
   admit n a = Inr (a\<lparr>jobQueueLock := False\<rparr>)"
  by (simp add: admit_def PeekID_def)

lemma admit_no_deps:
  "int n < MaxNumConcurrentJobs (conf a) \<Longrightarrow> jobQueue a = (fn, j) # rest \<Longrightarrow>
   map_of (jobDeps a) (GetID j) = None \<Longrightarrow>
   admit n a = Inr ((dequeueAndRunJob a)\<lparr>jobQueueLock := False\<rparr>)"
  by (simp add: admit_def PeekID_def)

lemma admit_must_wait:
  "int n < MaxNumConcurrentJobs (conf a) \<Longrightarrow> jobQueue a = (fn, j) # rest \<Longrightarrow>
   map_of (jobDeps a) (GetID j) \<noteq> None \<Longrightarrow> MustWait (jobDeps a) (GetID j) = Inr True \<Longrightarrow>
   admit n a = Inr (a\<lparr>jobQueue := rest @ [(fn, j)], jobQueueLock := False\<rparr>)"
  by (simp add: admit_def PeekID_def DelayNext_def)

lemma admit_failed_parent:
  "int n < MaxNumConcurrentJobs (conf a) \<Longrightarrow> jobQueue a = (fn, j) # rest \<Longrightarrow>
   map_of (jobDeps a) (GetID j) \<noteq> None \<Longrightarrow> MustWait (jobDeps a) (GetID j) = Inr False \<Longrightarrow>
   HasFailedParent (jobDeps a) (GetID j) = Inr True \<Longrightarrow>
   admit n a =
     (case dequeueJobAsFailed
             (Some (''failed to run job '' @ GetID j @ '' due to failed parent(s): %!w(<nil>)'')) a of
        Inl f \<Rightarrow> Inl f | Inr a' \<Rightarrow> Inr (a'\<lparr>jobQueueLock := False\<rparr>))"
  by (simp add: admit_def PeekID_def)

lemma admit_parents_ok:
  "int n < MaxNumConcurrentJobs (conf a) \<Longrightarrow> jobQueue a = (fn, j) # rest \<Longrightarrow>
   map_of (jobDeps a) (GetID j) \<noteq> None \<Longrightarrow> MustWait (jobDeps a) (GetID j) = Inr False \<Longrightarrow>
   HasFailedParent (jobDeps a) (GetID j) = Inr False \<Longrightarrow>
   admit n a = Inr ((dequeueAndRunJob a)\<lparr>jobQueueLock := False\<rparr>)"
  by (simp add: admit_def PeekID_def)

lemma deps_results:
  "map_of deps jobID \<noteq> None \<Longrightarrow> \<exists>w f. MustWait deps jobID = Inr w \<and> HasFailedParent deps jobID = Inr f"
  by (auto simp: MustWait_def HasFailedParent_def)

subsection \<open>One tick of the admit ticker\<close>

text \<open>
  Claim C2, amended. A tick that finds the queue lock free handles the head of the queue
  at most once: when the unfinished count is not below \<open>MaxNumConcurrentJobs\<close> or the
  queue is empty, queue, table and started workers stay as they are; otherwise, if the
  head has dependencies and must wait it is moved to the tail and nothing is admitted, if
  it has a failed parent it is dequeued and registered with an error without being run,
  and else it is dequeued, registered and run. At most one job leaves the queue and at
  most one worker is started per tick.
\<close>
theorem tick_handles_only_the_head:
  assumes "\<not> jobQueueLock a"
  shows "\<exists>a'. tick a = Inr a' \<and>
     length (jobQueue a) \<le> Suc (length (jobQueue a')) \<and>
     length (started a') \<le> Suc (length (started a)) \<and>
     (\<not> int (numOfUnfinishedJobs a) < MaxNumConcurrentJobs (conf a) \<or> jobQueue a = [] \<longrightarrow>
        jobQueue a' = jobQueue a \<and> jobList a' = jobList a \<and> started a' = started a) \<and>
     (\<forall>fn j rest.
        int (numOfUnfinishedJobs a) < MaxNumConcurrentJobs (conf a) \<and>
        jobQueue a = (fn, j) # rest \<longrightarrow>
        (if map_of (jobDeps a) (GetID j) \<noteq> None \<and> MustWait (jobDeps a) (GetID j) = Inr True
         then jobQueue a' = rest @ [(fn, j)] \<and> jobList a' = jobList a \<and>
              started a' = started a
         else if map_of (jobDeps a) (GetID j) \<noteq> None \<and>
                 HasFailedParent (jobDeps a) (GetID j) = Inr True
         then jobQueue a' = rest \<and> started a' = started a \<and>
              (\<exists>err. jobList a' = AList.update (GetID j) (WithError (Some err) j) (jobList a))
         else jobQueue a' = rest \<and>
              jobList a' = AList.update (GetID j) j (jobList a) \<and>
              started a' = started a @ [(fn, length (syncUpdates a))]))"
proof -
  let ?n = "numOfUnfinishedJobs a"
  let ?b = "a\<lparr>jobQueueLock := True\<rparr>"
  have t: "tick a = admit ?n ?b" by (rule tick_unlocked[OF assms])
  show ?thesis
  proof (cases "int ?n < MaxNumConcurrentJobs (conf a)")
    case False
    then have "tick a = Inr ?b" by (simp add: t admit_full)
    with False show ?thesis by simp
  next
    case below: True
    show ?thesis
    proof (cases "jobQueue a")
      case Nil
      then have "tick a = Inr (?b\<lparr>jobQueueLock := False\<rparr>)"
        using below by (simp add: t admit_empty)
      with Nil show ?thesis by simp
    next
      case (Cons x rest)
      obtain fn j where x: "x = (fn, j)" by (cases x) auto
      with Cons have q: "jobQueue ?b = (fn, j) # rest" by simp
      have c: "int ?n < MaxNumConcurrentJobs (conf ?b)" using below by simp
      have run: "dequeueAndRunJob ?b =
          (fst (registerJob j (?b\<lparr>jobQueue := rest\<rparr>)))
            \<lparr>started := started ?b @ [(fn, length (syncUpdates ?b))]\<rparr>"
        by (rule dequeueAndRunJob_Cons[OF q])
      show ?thesis
      proof (cases "map_of (jobDeps a) (GetID j)")
        case None
        then have "tick a = Inr ((dequeueAndRunJob ?b)\<lparr>jobQueueLock := False\<rparr>)"
          using admit_no_deps[OF c q] by (simp add: t)
        then show ?thesis
          using None Cons x below by (simp add: run registerJob_fields)
      next
        case (Some ps)
        then have d: "map_of (jobDeps ?b) (GetID j) \<noteq> None" by simp
        from deps_results[OF d] obtain w f where
          w: "MustWait (jobDeps ?b) (GetID j) = Inr w" and
          f: "HasFailedParent (jobDeps ?b) (GetID j) = Inr f" by blast
        show ?thesis
        proof (cases w)
          case True
          with w have "tick a = Inr (?b\<lparr>jobQueue := rest @ [(fn, j)], jobQueueLock := False\<rparr>)"
            using admit_must_wait[OF c q d] by (simp add: t)
          then show ?thesis
            using Some Cons x below w True by simp
        next
          case notwait: False
          show ?thesis
          proof (cases f)
            case True
            let ?e = "''failed to run job '' @ GetID j @ '' due to failed parent(s): %!w(<nil>)''"
            from dequeueJobAsFailed_channel[OF q, of "Some ?e"] obtain a1 where
              a1: "dequeueJobAsFailed (Some ?e) ?b = Inr a1" "jobQueue a1 = rest"
                "jobList a1 = AList.update (GetID j) (WithError (Some ?e) j) (jobList ?b)"
                "started a1 = started ?b"
              by blast
            from w notwait f True have "tick a = Inr (a1\<lparr>jobQueueLock := False\<rparr>)"
              using admit_failed_parent[OF c q d] a1(1) by (simp add: t)
            then show ?thesis
              using Some Cons x below w notwait f True a1(2,3,4) by auto
          next
            case False
            with w notwait f have "tick a = Inr ((dequeueAndRunJob ?b)\<lparr>jobQueueLock := False\<rparr>)"
              using admit_parents_ok[OF c q d] by (simp add: t)
            then show ?thesis
              using Some Cons x below w notwait f False by (simp add: run registerJob_fields)
          qed
        qed
      qed
    qed
  qed
qed

text \<open>
  C2 as stated fails: with a ceiling of two, an empty table and the queue \<open>a\<close>, \<open>b\<close>
  (neither with dependencies), one tick admits \<open>a\<close> and stops although the count is
  still below the ceiling and \<open>b\<close> is queued.
\<close>
theorem tick_admits_one_job_counterexample:
  "tick ((NewActions conf2 [] :: nat Actions)\<lparr>jobQueue := [(1, job_a), (2, job_b)]\<rparr>)
   = Inr ((NewActions conf2 [] :: nat Actions)
        \<lparr>jobList := [(''a'', job_a)], jobQueue := [(2, job_b)],
         syncUpdates := [\<lparr>chan_job = ''a'', chan_items = [], chan_closed = False\<rparr>],
         started := [(1, 0)]\<rparr>) \<and>
   int (numOfUnfinishedJobs ((NewActions conf2 [] :: nat Actions)
        \<lparr>jobList := [(''a'', job_a)], jobQueue := [(2, job_b)],
         syncUpdates := [\<lparr>chan_job = ''a'', chan_items = [], chan_closed = False\<rparr>],
         started := [(1, 0)]\<rparr>)) < MaxNumConcurrentJobs conf2 \<and>
   map_of (jobDeps (NewActions conf2 [] :: nat Actions)) (GetID job_b) = None"
  by (simp add: sched_eval)

text \<open>
  C2 amended, at three queues with head \<open>a\<close>: without dependencies, with an unfinished
  parent, with a failed parent.
\<close>
theorem tick_handles_only_the_head_witness:
  "\<not> jobQueueLock ((NewActions conf2 [] :: nat Actions)\<lparr>jobQueue := [(1, job_a), (2, job_b)]\<rparr>) \<and>
   int (numOfUnfinishedJobs
          ((NewActions conf2 [] :: nat Actions)\<lparr>jobQueue := [(1, job_a), (2, job_b)]\<rparr>))
     < MaxNumConcurrentJobs
         (conf ((NewActions conf2 [] :: nat Actions)\<lparr>jobQueue := [(1, job_a), (2, job_b)]\<rparr>)) \<and>
   (\<exists>a'. tick ((NewActions conf2 [] :: nat Actions)\<lparr>jobQueue := [(1, job_a), (2, job_b)]\<rparr>)
           = Inr a' \<and>
         jobQueue a' = [(2, job_b)] \<and> jobList a' = [(''a'', job_a)] \<and> started a' = [(1, 0)]) \<and>
   MustWait [(''a'', [(''z'', ParentUnfinished)])] (GetID job_a) = Inr True \<and>
   (\<exists>a'. tick ((NewActions conf2 [] :: nat Actions)
                 \<lparr>jobQueue := [(1, job_a), (2, job_b)],
                  jobDeps := [(''a'', [(''z'', ParentUnfinished)])]\<rparr>) = Inr a' \<and>
         jobQueue a' = [(2, job_b), (1, job_a)] \<and> jobList a' = [] \<and> started a' = []) \<and>
   HasFailedParent [(''a'', [(''z'', ParentFinishedFailed)])] (GetID job_a) = Inr True \<and>
   (\<exists>a' err. tick ((NewActions conf2 [] :: nat Actions)
                 \<lparr>jobQueue := [(1, job_a), (2, job_b)],
                  jobDeps := [(''a'', [(''z'', ParentFinishedFailed)])]\<rparr>) = Inr a' \<and>
         jobQueue a' = [(2, job_b)] \<and> jobList a' = [(''a'', WithError (Some err) job_a)] \<and>
         started a' = [])"
proof -
  let ?x = "(NewActions conf2 [] :: nat Actions)\<lparr>jobQueue := [(1, job_a), (2, job_b)]\<rparr>"
  let ?y = "(NewActions conf2 [] :: nat Actions)
                 \<lparr>jobQueue := [(1, job_a), (2, job_b)],
                  jobDeps := [(''a'', [(''z'', ParentUnfinished)])]\<rparr>"
  let ?z = "(NewActions conf2 [] :: nat Actions)
                 \<lparr>jobQueue := [(1, job_a), (2, job_b)],
                  jobDeps := [(''a'', [(''z'', ParentFinishedFailed)])]\<rparr>"
  have lx: "\<not> jobQueueLock ?x" and ly: "\<not> jobQueueLock ?y" and lz: "\<not> jobQueueLock ?z"
    by (simp_all add: NewActions_def)
  have nx: "int (numOfUnfinishedJobs ?x) < MaxNumConcurrentJobs (conf ?x)"
    and ny: "int (numOfUnfinishedJobs ?y) < MaxNumConcurrentJobs (conf ?y)"
    and nz: "int (numOfUnfinishedJobs ?z) < MaxNumConcurrentJobs (conf ?z)"
    by (simp_all add: NewActions_def numOfUnfinishedJobs_def conf2_def)
  have qx: "jobQueue ?x = (1, job_a) # [(2, job_b)]"
    and qy: "jobQueue ?y = (1, job_a) # [(2, job_b)]"
    and qz: "jobQueue ?z = (1, job_a) # [(2, job_b)]"
    by simp_all
  have dx: "map_of (jobDeps ?x) (GetID job_a) = None"
    by (simp add: NewActions_def)
  have dy: "map_of (jobDeps ?y) (GetID job_a) \<noteq> None"
    and wy: "MustWait (jobDeps ?y) (GetID job_a) = Inr True"
    by (simp_all add: job_a_def MustWait_def)
  have dz: "map_of (jobDeps ?z) (GetID job_a) \<noteq> None"
    and wz: "MustWait (jobDeps ?z) (GetID job_a) = Inr False"
    and fz: "HasFailedParent (jobDeps ?z) (GetID job_a) = Inr True"
    by (simp_all add: job_a_def MustWait_def HasFailedParent_def)
  have ex: "jobList ?x = []" "started ?x = []" "syncUpdates ?x = []"
    and ey: "jobList ?y = []" "started ?y = []"
    and ez: "jobList ?z = []" "started ?z = []"
    by (simp_all add: NewActions_def)
  have ida: "GetID job_a = ''a''" by (simp add: job_a_def)
  from tick_handles_only_the_head[OF lx] obtain ax where
    ax: "tick ?x = Inr ax"
      "\<forall>fn j rest. int (numOfUnfinishedJobs ?x) < MaxNumConcurrentJobs (conf ?x) \<and>
          jobQueue ?x = (fn, j) # rest \<longrightarrow>
        (if map_of (jobDeps ?x) (GetID j) \<noteq> None \<and> MustWait (jobDeps ?x) (GetID j) = Inr True
         then jobQueue ax = rest @ [(fn, j)] \<and> jobList ax = jobList ?x \<and> started ax = started ?x
         else if map_of (jobDeps ?x) (GetID j) \<noteq> None \<and>
                 HasFailedParent (jobDeps ?x) (GetID j) = Inr True
         then jobQueue ax = rest \<and> started ax = started ?x \<and>
              (\<exists>err. jobList ax = AList.update (GetID j) (WithError (Some err) j) (jobList ?x))
         else jobQueue ax = rest \<and>
              jobList ax = AList.update (GetID j) j (jobList ?x) \<and>
              started ax = started ?x @ [(fn, length (syncUpdates ?x))])"
    by blast
  from ax(2)[rule_format, of 1 job_a "[(2, job_b)]"] nx qx
  have rx: "jobQueue ax = [(2, job_b)] \<and> jobList ax = [(''a'', job_a)] \<and> started ax = [(1, 0)]"
    unfolding dx ex by (simp add: ida)
  from tick_handles_only_the_head[OF ly] obtain ay where
    ay: "tick ?y = Inr ay"
      "\<forall>fn j rest. int (numOfUnfinishedJobs ?y) < MaxNumConcurrentJobs (conf ?y) \<and>
          jobQueue ?y = (fn, j) # rest \<longrightarrow>
        (if map_of (jobDeps ?y) (GetID j) \<noteq> None \<and> MustWait (jobDeps ?y) (GetID j) = Inr True
         then jobQueue ay = rest @ [(fn, j)] \<and> jobList ay = jobList ?y \<and> started ay = started ?y
         else if map_of (jobDeps ?y) (GetID j) \<noteq> None \<and>
                 HasFailedParent (jobDeps ?y) (GetID j) = Inr True
         then jobQueue ay = rest \<and> started ay = started ?y \<and>
              (\<exists>err. jobList ay = AList.update (GetID j) (WithError (Some err) j) (jobList ?y))
         else jobQueue ay = rest \<and>
              jobList ay = AList.update (GetID j) j (jobList ?y) \<and>
              started ay = started ?y @ [(fn, length (syncUpdates ?y))])"
    by blast
  from ay(2)[rule_format, of 1 job_a "[(2, job_b)]"] ny qy dy wy
  have ry: "jobQueue ay = [(2, job_b), (1, job_a)] \<and> jobList ay = [] \<and> started ay = []"
    unfolding ey by simp
  from tick_handles_only_the_head[OF lz] obtain az where
    az: "tick ?z = Inr az"
      "\<forall>fn j rest. int (numOfUnfinishedJobs ?z) < MaxNumConcurrentJobs (conf ?z) \<and>
          jobQueue ?z = (fn, j) # rest \<longrightarrow>
        (if map_of (jobDeps ?z) (GetID j) \<noteq> None \<and> MustWait (jobDeps ?z) (GetID j) = Inr True
         then jobQueue az = rest @ [(fn, j)] \<and> jobList az = jobList ?z \<and> started az = started ?z
         else if map_of (jobDeps ?z) (GetID j) \<noteq> None \<and>
                 HasFailedParent (jobDeps ?z) (GetID j) = Inr True
         then jobQueue az = rest \<and> started az = started ?z \<and>
              (\<exists>err. jobList az = AList.update (GetID j) (WithError (Some err) j) (jobList ?z))
         else jobQueue az = rest \<and>
              jobList az = AList.update (GetID j) j (jobList ?z) \<and>
              started az = started ?z @ [(fn, length (syncUpdates ?z))])"
    by blast
  from az(2)[rule_format, of 1 job_a "[(2, job_b)]"] nz qz dz wz fz
  have rz: "jobQueue az = [(2, job_b)] \<and> started az = [] \<and>
            (\<exists>err. jobList az = [(''a'', WithError (Some err) job_a)])"
    unfolding ez by (simp add: ida)
  have my: "MustWait [(''a'', [(''z'', ParentUnfinished)])] (GetID job_a) = Inr True"
    using wy by simp
  have mz: "HasFailedParent [(''a'', [(''z'', ParentFinishedFailed)])] (GetID job_a) = Inr True"
    using fz by simp
  from lx nx ax(1) rx my ay(1) ry mz az(1) rz show ?thesis by blast
qed

end
